theory Spec2Isabelle
  imports Main "HOL-Library.Word"
begin

unbundle bit_operations_syntax

section \<open>The epoll poller of src/ev\_epoll.c\<close>

text \<open>
  The poller keeps four descriptor bit arrays (\<open>StaticReadEvent\<close>, \<open>StaticWriteEvent\<close>:
  what the caller wants; \<open>PrevReadEvent\<close>, \<open>PrevWriteEvent\<close>: what was last told to the
  kernel), a handful of accessors over the first two, and \<open>epoll_poll\<close>, which first
  brings the kernel in line with the wanted bits (one \<open>epoll_ctl\<close> per descriptor whose
  bits differ) and then waits and runs the callbacks of the ready descriptors.

  Conventions of the embedding.
  \<^item> A bit array is a function from the index of a 32-bit chunk to that chunk. The
    source reads the arrays through \<open>(int* )\<close> casts, one \<open>unsigned\<close> at a time, and
    through the C library's \<open>FD_SET\<close>, \<open>FD_CLR\<close>, \<open>FD_ISSET\<close>; both views address
    bit \<open>fd mod 32\<close> of chunk \<open>fd div 32\<close> (the source's own switch
    \<open>WE_REALLY_NOW_THAT_FDSETS_ARE_INTS\<close> relies on it). The arrays have no bound here:
    an access past the allocation is undefined in C and is not given a meaning.
  \<^item> Descriptors, chunk indices and loop counters are natural numbers: none of them is
    ever negative in the source, and \<open>fds << INTBITS\<close> is taken without overflow.
    \<open>maxfd\<close> and the status of the wait call are C \<open>int\<close>s that can be compared with
    such a number, so they are integers.
  \<^item> Every \<open>epoll_ctl\<close> call is appended to \<open>ctl_log\<close> and every callback invocation
    to \<open>cb_log\<close>; the return value of \<open>epoll_ctl\<close> is ignored by the source, so the
    kernel's answer is not a parameter. The answer of \<open>epoll_wait\<close> (its status and the
    event buffer it filled) is a parameter of \<open>epoll_poll\<close>.
  \<^item> The callbacks \<open>fdtab[fd].cb[dir].f\<close> are code outside this file. They are a
    parameter: an arbitrary transformer of the variables the rest of the program can
    reach (record \<open>globals\<close>), which excludes the two logs.
  \<^item> The update of the time cache (\<open>tv_now\<close>) is left out.
\<close>

subsection \<open>Constants and types\<close>

text \<open>
  Modelled from the spec: \<open>INTBITS\<close> is declared in a header that is not among the
  sources; the chunk is "the native word width", the 32 bits of the \<open>unsigned\<close> the
  chunks are read into, so \<open>1 << INTBITS = 32\<close>.
\<close>

definition INTBITS :: nat where
  "INTBITS = 5"

type_synonym fd_set = "nat \<Rightarrow> 32 word"

text \<open>
  Modelled from the spec: \<open>DIR_RD\<close> and \<open>DIR_WR\<close> are declared in \<open>types/fd.h\<close>, which
  is not among the sources; the spec has the direction as "an enumeration {Read, Write}".
  The accessors test \<open>dir == DIR_RD\<close> and take anything else for the write side.
\<close>

datatype dir = DIR_RD | DIR_WR

text \<open>
  Modelled from the spec: the descriptor table (\<open>types/fd.h\<close>) is not among the
  sources. The spec gives a descriptor two lifecycle states, pending-close and open; the
  source only ever compares the state with \<open>FD_STCLOSE\<close>.
\<close>

datatype fd_state = FD_STCLOSE | FD_STOPEN

text \<open>The event bits of the Linux epoll interface, as \<open>sys/epoll.h\<close> numbers them.\<close>

definition EPOLLIN :: "32 word" where
  "EPOLLIN = 1"

definition EPOLLOUT :: "32 word" where
  "EPOLLOUT = 4"

definition EPOLLERR :: "32 word" where
  "EPOLLERR = 8"

definition EPOLLHUP :: "32 word" where
  "EPOLLHUP = 16"

datatype ctl_op = EPOLL_CTL_ADD | EPOLL_CTL_DEL | EPOLL_CTL_MOD

text \<open>
  One call \<open>epoll_ctl(epoll_fd, op, fd, &ev)\<close>, with \<open>ev.events\<close> as its mask; the
  three operations are those of \<open>sys/epoll.h\<close>.
\<close>

datatype ctl_call = Epoll_ctl (ctl_op: ctl_op) (ctl_fd: nat) (ctl_events: "32 word")

text \<open>One record of the ready-event buffer: \<open>events\<close> and \<open>data.fd\<close>.\<close>

record epoll_event =
  events :: "32 word"
  data_fd :: nat

text \<open>
  The variables the rest of the program shares with the poller: the four arrays (the
  previous ones are \<open>static\<close> in the source, reached from outside through \<open>__fd_clo\<close>
  only), \<open>maxfd\<close>, and the lifecycle state \<open>fdtab[fd].state\<close> of every descriptor.
\<close>

record globals =
  StaticReadEvent :: fd_set
  StaticWriteEvent :: fd_set
  PrevReadEvent :: fd_set
  PrevWriteEvent :: fd_set
  maxfd :: int
  fdtab_state :: "nat \<Rightarrow> fd_state"

record poller_state = globals +
  ctl_log :: "ctl_call list"
  cb_log :: "(dir \<times> nat) list"

subsection \<open>The bit macros\<close>

definition FD_ISSET :: "nat \<Rightarrow> fd_set \<Rightarrow> bool" where
  "FD_ISSET fd ev = bit (ev (fd div 2 ^ INTBITS)) (fd mod 2 ^ INTBITS)"

definition FD_SET :: "nat \<Rightarrow> fd_set \<Rightarrow> fd_set" where
  "FD_SET fd ev =
     ev(fd div 2 ^ INTBITS := ev (fd div 2 ^ INTBITS) OR push_bit (fd mod 2 ^ INTBITS) 1)"

definition FD_CLR :: "nat \<Rightarrow> fd_set \<Rightarrow> fd_set" where
  "FD_CLR fd ev =
     ev(fd div 2 ^ INTBITS := ev (fd div 2 ^ INTBITS) AND NOT (push_bit (fd mod 2 ^ INTBITS) 1))"

subsection \<open>The accessors\<close>

definition fd_isset :: "nat \<Rightarrow> dir \<Rightarrow> 'a globals_scheme \<Rightarrow> bool" where
  "fd_isset fd dir s =
     (if dir = DIR_RD then FD_ISSET fd (StaticReadEvent s)
      else FD_ISSET fd (StaticWriteEvent s))"

definition fd_set :: "nat \<Rightarrow> dir \<Rightarrow> 'a globals_scheme \<Rightarrow> 'a globals_scheme" where
  "fd_set fd dir s =
     (if dir = DIR_RD then s\<lparr>StaticReadEvent := FD_SET fd (StaticReadEvent s)\<rparr>
      else s\<lparr>StaticWriteEvent := FD_SET fd (StaticWriteEvent s)\<rparr>)"

definition fd_clr :: "nat \<Rightarrow> dir \<Rightarrow> 'a globals_scheme \<Rightarrow> 'a globals_scheme" where
  "fd_clr fd dir s =
     (if dir = DIR_RD then s\<lparr>StaticReadEvent := FD_CLR fd (StaticReadEvent s)\<rparr>
      else s\<lparr>StaticWriteEvent := FD_CLR fd (StaticWriteEvent s)\<rparr>)"

text \<open>\<open>__fd_cond_s\<close> and \<open>__fd_cond_c\<close> return \<open>ret\<close> together with the new state.\<close>

definition fd_cond_s :: "nat \<Rightarrow> dir \<Rightarrow> 'a globals_scheme \<Rightarrow> bool \<times> 'a globals_scheme" where
  "fd_cond_s fd dir s =
     (if dir = DIR_RD then
        (let ret = \<not> FD_ISSET fd (StaticReadEvent s)
         in (ret, if ret then s\<lparr>StaticReadEvent := FD_SET fd (StaticReadEvent s)\<rparr> else s))
      else
        (let ret = \<not> FD_ISSET fd (StaticWriteEvent s)
         in (ret, if ret then s\<lparr>StaticWriteEvent := FD_SET fd (StaticWriteEvent s)\<rparr> else s)))"

definition fd_cond_c :: "nat \<Rightarrow> dir \<Rightarrow> 'a globals_scheme \<Rightarrow> bool \<times> 'a globals_scheme" where
  "fd_cond_c fd dir s =
     (if dir = DIR_RD then
        (let ret = FD_ISSET fd (StaticReadEvent s)
         in (ret, if ret then s\<lparr>StaticReadEvent := FD_CLR fd (StaticReadEvent s)\<rparr> else s))
      else
        (let ret = FD_ISSET fd (StaticWriteEvent s)
         in (ret, if ret then s\<lparr>StaticWriteEvent := FD_CLR fd (StaticWriteEvent s)\<rparr> else s)))"

definition fd_rem :: "nat \<Rightarrow> 'a globals_scheme \<Rightarrow> 'a globals_scheme" where
  "fd_rem fd s =
     s\<lparr>StaticReadEvent := FD_CLR fd (StaticReadEvent s),
       StaticWriteEvent := FD_CLR fd (StaticWriteEvent s)\<rparr>"

definition fd_clo :: "nat \<Rightarrow> 'a globals_scheme \<Rightarrow> 'a globals_scheme" where
  "fd_clo fd s =
     s\<lparr>StaticReadEvent := FD_CLR fd (StaticReadEvent s),
       StaticWriteEvent := FD_CLR fd (StaticWriteEvent s),
       PrevReadEvent := FD_CLR fd (PrevReadEvent s),
       PrevWriteEvent := FD_CLR fd (PrevWriteEvent s)\<rparr>"

subsection \<open>Initialisation\<close>

text \<open>
  \<open>epoll_init\<close> acquires six resources in a fixed order: the kernel object
  (\<open>epoll_create\<close>) and five zeroed arrays (\<open>calloc\<close>). Whether an acquisition
  succeeds is decided by the system, so it is a parameter \<open>ok\<close>. The calls that
  acquire or give back a resource (\<open>free\<close>, \<open>close\<close>) are logged in order. The labels
  of the source's \<open>goto\<close> chain are functions that fall through to the next label.
\<close>

datatype resource = Epoll_fd | Epoll_events | PrevRead | PrevWrite | StaticRead | StaticWrite

datatype sys_call = Acquire resource | Release resource

record init_result =
  init_ret :: int
  poller_pref :: int
  sys_log :: "sys_call list"

definition fail_fd :: "sys_call list \<Rightarrow> init_result" where
  "fail_fd l = \<lparr>init_ret = 0, poller_pref = 0, sys_log = l\<rparr>"

definition fail_ee :: "sys_call list \<Rightarrow> init_result" where
  "fail_ee l = fail_fd (l @ [Release Epoll_fd])"

definition fail_prevt :: "sys_call list \<Rightarrow> init_result" where
  "fail_prevt l = fail_ee (l @ [Release Epoll_events])"

definition fail_pwevt :: "sys_call list \<Rightarrow> init_result" where
  "fail_pwevt l = fail_prevt (l @ [Release PrevRead])"

definition fail_srevt :: "sys_call list \<Rightarrow> init_result" where
  "fail_srevt l = fail_pwevt (l @ [Release PrevWrite])"

definition fail_swevt :: "sys_call list \<Rightarrow> init_result" where
  "fail_swevt l = fail_srevt (l @ [Release StaticRead])"

text \<open>\<open>pref0\<close> is \<open>p->pref\<close> on entry; it is only written on failure.\<close>

definition epoll_init :: "(resource \<Rightarrow> bool) \<Rightarrow> int \<Rightarrow> init_result" where
  "epoll_init ok pref0 =
     (if \<not> ok Epoll_fd then fail_fd []
      else if \<not> ok Epoll_events then fail_ee [Acquire Epoll_fd]
      else if \<not> ok PrevRead then fail_prevt [Acquire Epoll_fd, Acquire Epoll_events]
      else if \<not> ok PrevWrite then
        fail_pwevt [Acquire Epoll_fd, Acquire Epoll_events, Acquire PrevRead]
      else if \<not> ok StaticRead then
        fail_srevt [Acquire Epoll_fd, Acquire Epoll_events, Acquire PrevRead, Acquire PrevWrite]
      else if \<not> ok StaticWrite then
        fail_swevt [Acquire Epoll_fd, Acquire Epoll_events, Acquire PrevRead, Acquire PrevWrite,
                    Acquire StaticRead]
      else \<lparr>init_ret = 1, poller_pref = pref0,
             sys_log = [Acquire Epoll_fd, Acquire Epoll_events, Acquire PrevRead,
                        Acquire PrevWrite, Acquire StaticRead, Acquire StaticWrite]\<rparr>)"

subsection \<open>The poll function, first loop: bringing the kernel up to date\<close>

definition epoll_ctl :: "ctl_op \<Rightarrow> nat \<Rightarrow> 32 word \<Rightarrow> poller_state \<Rightarrow> poller_state" where
  "epoll_ctl op fd ev s = s\<lparr>ctl_log := ctl_log s @ [Epoll_ctl op fd ev]\<rparr>"

text \<open>
  The body of the inner loop, for bit \<open>count\<close> of the four chunk words and descriptor
  \<open>fd\<close>. The source is compiled without \<open>EPOLL_CTL_MOD_WORKAROUND\<close> (nothing in the file
  defines it), so the branch modelled is the one after \<open>#else\<close>.
\<close>

definition sync_fd ::
  "32 word \<Rightarrow> 32 word \<Rightarrow> 32 word \<Rightarrow> 32 word \<Rightarrow> nat \<Rightarrow> nat \<Rightarrow> poller_state \<Rightarrow> poller_state" where
  "sync_fd rn ro wn wo count fd s =
     (let pr = drop_bit count ro AND 1;
          pw = drop_bit count wo AND 1;
          sr = drop_bit count rn AND 1;
          sw = drop_bit count wn AND 1
      in if (sr XOR pr) OR (sw XOR pw) = 0 then s
         else
           (let ev = (if sr \<noteq> 0 then EPOLLIN else 0) OR (if sw \<noteq> 0 then EPOLLOUT else 0)
            in if pr OR pw \<noteq> 0 then
                 (if sr OR sw \<noteq> 0 then epoll_ctl EPOLL_CTL_MOD fd ev s
                  else if fdtab_state s fd \<noteq> FD_STCLOSE then epoll_ctl EPOLL_CTL_DEL fd ev s
                  else s)
               else epoll_ctl EPOLL_CTL_ADD fd ev s))"

function fd_loop ::
  "32 word \<Rightarrow> 32 word \<Rightarrow> 32 word \<Rightarrow> 32 word \<Rightarrow> nat \<Rightarrow> nat \<Rightarrow> poller_state \<Rightarrow> poller_state" where
  "fd_loop rn ro wn wo count fd s =
     (if count < 2 ^ INTBITS \<and> int fd < maxfd s
      then fd_loop rn ro wn wo (count + 1) (fd + 1) (sync_fd rn ro wn wo count fd s)
      else s)"
  by pat_completeness auto
termination
  by (relation "measure (\<lambda>(rn, ro, wn, wo, count, fd, s). 2 ^ INTBITS - count)") auto

declare fd_loop.simps [simp del]

text \<open>The body of the outer loop, for chunk \<open>fds\<close>.\<close>

definition sync_chunk :: "nat \<Rightarrow> poller_state \<Rightarrow> poller_state" where
  "sync_chunk fds s =
     (let rn = StaticReadEvent s fds; ro = PrevReadEvent s fds;
          wn = StaticWriteEvent s fds; wo = PrevWriteEvent s fds
      in if (ro XOR rn) OR (wo XOR wn) \<noteq> 0 then
           (let s' = fd_loop rn ro wn wo 0 (push_bit INTBITS fds) s
            in s'\<lparr>PrevReadEvent := (PrevReadEvent s')(fds := rn),
                  PrevWriteEvent := (PrevWriteEvent s')(fds := wn)\<rparr>)
         else s)"

function chunk_loop :: "nat \<Rightarrow> poller_state \<Rightarrow> poller_state" where
  "chunk_loop fds s =
     (if int (push_bit INTBITS fds) < maxfd s then chunk_loop (fds + 1) (sync_chunk fds s)
      else s)"
  by pat_completeness auto
termination
proof (relation "measure (\<lambda>(fds, s). nat (maxfd s) - fds)")
  show "wf (measure (\<lambda>(fds, s). nat (maxfd s) - fds))"
    by simp
next
  fix fds :: nat and s :: poller_state
  assume a: "int (push_bit INTBITS fds) < maxfd s"
  have ctl: "\<And>op fd ev t. maxfd (epoll_ctl op fd ev t) = maxfd t"
    by (simp add: epoll_ctl_def)
  have body: "\<And>rn ro wn wo count fd t. maxfd (sync_fd rn ro wn wo count fd t) = maxfd t"
    by (simp add: sync_fd_def Let_def ctl)
  have loop: "\<And>rn ro wn wo count fd t. maxfd (fd_loop rn ro wn wo count fd t) = maxfd t"
  proof -
    fix rn ro wn wo count fd t
    show "maxfd (fd_loop rn ro wn wo count fd t) = maxfd t"
    proof (induction rn ro wn wo count fd t rule: fd_loop.induct)
      case (1 rn ro wn wo count fd t)
      then show ?case
        by (subst fd_loop.simps) (simp add: body)
    qed
  qed
  have same: "maxfd (sync_chunk fds s) = maxfd s"
    by (simp add: sync_chunk_def Let_def loop)
  have "fds \<le> push_bit INTBITS fds"
    by (simp add: push_bit_eq_mult)
  with a have "fds < nat (maxfd s)"
    by linarith
  with same show "((fds + 1, sync_chunk fds s), (fds, s)) \<in> measure (\<lambda>(fds, s). nat (maxfd s) - fds)"
    by simp
qed

declare chunk_loop.simps [simp del]

subsection \<open>The poll function, second loop: running the callbacks\<close>

text \<open>
  \<open>fdtab[fd].cb[dir].f(fd)\<close>: the invocation is logged, and the callback, given the
  globals, leaves new ones. It cannot reach the two logs.
\<close>

definition call_cb ::
  "(dir \<Rightarrow> nat \<Rightarrow> globals \<Rightarrow> globals) \<Rightarrow> dir \<Rightarrow> nat \<Rightarrow> poller_state \<Rightarrow> poller_state" where
  "call_cb cb dir fd s =
     (let g = cb dir fd (globals.truncate s)
      in s\<lparr>StaticReadEvent := StaticReadEvent g, StaticWriteEvent := StaticWriteEvent g,
           PrevReadEvent := PrevReadEvent g, PrevWriteEvent := PrevWriteEvent g,
           maxfd := maxfd g, fdtab_state := fdtab_state g,
           cb_log := cb_log s @ [(dir, fd)]\<rparr>)"

text \<open>
  The body of the loop over the returned records. Each \<open>continue\<close> of the source ends
  the body with the state reached so far; the write half starts from the state the read
  callback left.
\<close>

definition dispatch_event ::
  "(dir \<Rightarrow> nat \<Rightarrow> globals \<Rightarrow> globals) \<Rightarrow> epoll_event \<Rightarrow> poller_state \<Rightarrow> poller_state" where
  "dispatch_event cb e s =
     (let fd = data_fd e in
      if FD_ISSET fd (StaticReadEvent s) \<and> fdtab_state s fd = FD_STCLOSE then s
      else
        (let s1 = (if FD_ISSET fd (StaticReadEvent s) \<and>
                      events e AND (EPOLLIN OR EPOLLERR OR EPOLLHUP) \<noteq> 0
                   then call_cb cb DIR_RD fd s else s)
         in if FD_ISSET fd (StaticWriteEvent s1) then
              (if fdtab_state s1 fd = FD_STCLOSE then s1
               else if events e AND (EPOLLOUT OR EPOLLERR OR EPOLLHUP) \<noteq> 0
                 then call_cb cb DIR_WR fd s1
               else s1)
            else s1))"

function event_loop ::
  "(dir \<Rightarrow> nat \<Rightarrow> globals \<Rightarrow> globals) \<Rightarrow> int \<Rightarrow> (nat \<Rightarrow> epoll_event) \<Rightarrow> nat \<Rightarrow>
   poller_state \<Rightarrow> poller_state" where
  "event_loop cb status evs count s =
     (if int count < status
      then event_loop cb status evs (count + 1) (dispatch_event cb (evs count) s)
      else s)"
  by pat_completeness auto
termination
  by (relation "measure (\<lambda>(cb, status, evs, count, s). nat (status - int count))") auto

declare event_loop.simps [simp del]

text \<open>
  \<open>epoll_poll\<close>: \<open>status\<close> is what \<open>epoll_wait\<close> returned and \<open>evs\<close> the contents of
  \<open>epoll_events\<close> after it. The function returns \<open>void\<close>: all a caller can see of it
  is the state it leaves.
\<close>

definition epoll_poll ::
  "(dir \<Rightarrow> nat \<Rightarrow> globals \<Rightarrow> globals) \<Rightarrow> int \<Rightarrow> (nat \<Rightarrow> epoll_event) \<Rightarrow>
   poller_state \<Rightarrow> poller_state" where
  "epoll_poll cb status evs s = event_loop cb status evs 0 (chunk_loop 0 s)"

subsection \<open>Observations used in the statements\<close>

text \<open>The \<open>epoll_ctl\<close> calls, and the callback invocations, made between two states.\<close>

definition ctl_issued :: "poller_state \<Rightarrow> poller_state \<Rightarrow> ctl_call list" where
  "ctl_issued s s' = drop (length (ctl_log s)) (ctl_log s')"

definition cb_dispatched :: "poller_state \<Rightarrow> poller_state \<Rightarrow> (dir \<times> nat) list" where
  "cb_dispatched s s' = drop (length (cb_log s)) (cb_log s')"

text \<open>
  The calls one descriptor gives rise to in the first loop, read off its four bits and its
  lifecycle state. The loops are shown below to issue exactly these, descriptor by
  descriptor in increasing order.
\<close>

definition fd_calls :: "poller_state \<Rightarrow> nat \<Rightarrow> ctl_call list" where
  "fd_calls s fd =
     (let pr = FD_ISSET fd (PrevReadEvent s); pw = FD_ISSET fd (PrevWriteEvent s);
          sr = FD_ISSET fd (StaticReadEvent s); sw = FD_ISSET fd (StaticWriteEvent s);
          ev = (if sr then EPOLLIN else 0) OR (if sw then EPOLLOUT else 0)
      in if sr = pr \<and> sw = pw then []
         else if pr \<or> pw then
           (if sr \<or> sw then [Epoll_ctl EPOLL_CTL_MOD fd ev]
            else if fdtab_state s fd \<noteq> FD_STCLOSE then [Epoll_ctl EPOLL_CTL_DEL fd ev]
            else [])
         else [Epoll_ctl EPOLL_CTL_ADD fd ev])"

text \<open>
  Callbacks that leave the four bit arrays alone and do not raise \<open>maxfd\<close>: the range
  of descriptors the next poll scans is then within the range this one scanned.
\<close>

definition leaves_bitsets :: "(dir \<Rightarrow> nat \<Rightarrow> globals \<Rightarrow> globals) \<Rightarrow> bool" where
  "leaves_bitsets cb \<longleftrightarrow>
     (\<forall>dir fd g. StaticReadEvent (cb dir fd g) = StaticReadEvent g \<and>
                 StaticWriteEvent (cb dir fd g) = StaticWriteEvent g \<and>
                 PrevReadEvent (cb dir fd g) = PrevReadEvent g \<and>
                 PrevWriteEvent (cb dir fd g) = PrevWriteEvent g \<and>
                 maxfd (cb dir fd g) \<le> maxfd g)"

text \<open>The calls of a log that are about descriptor \<open>fd\<close>.\<close>

definition calls_for :: "nat \<Rightarrow> ctl_call list \<Rightarrow> ctl_call list" where
  "calls_for fd l = filter (\<lambda>c. ctl_fd c = fd) l"

text \<open>
  The four bits of a descriptor, in the words of the source's comments: it "already
  exists" for the kernel, it is wanted, its interest changed, and the mask asked for.
\<close>

definition registered :: "poller_state \<Rightarrow> nat \<Rightarrow> bool" where
  "registered s fd \<longleftrightarrow> FD_ISSET fd (PrevReadEvent s) \<or> FD_ISSET fd (PrevWriteEvent s)"

definition wanted :: "poller_state \<Rightarrow> nat \<Rightarrow> bool" where
  "wanted s fd \<longleftrightarrow> FD_ISSET fd (StaticReadEvent s) \<or> FD_ISSET fd (StaticWriteEvent s)"

definition changed :: "poller_state \<Rightarrow> nat \<Rightarrow> bool" where
  "changed s fd \<longleftrightarrow>
     FD_ISSET fd (StaticReadEvent s) \<noteq> FD_ISSET fd (PrevReadEvent s) \<or>
     FD_ISSET fd (StaticWriteEvent s) \<noteq> FD_ISSET fd (PrevWriteEvent s)"

definition wanted_mask :: "poller_state \<Rightarrow> nat \<Rightarrow> 32 word" where
  "wanted_mask s fd =
     (if FD_ISSET fd (StaticReadEvent s) then EPOLLIN else 0) OR
     (if FD_ISSET fd (StaticWriteEvent s) then EPOLLOUT else 0)"


text \<open>Nothing but the desired bits may differ between \<open>s\<close> and \<open>s'\<close>.\<close>

definition only_desired_differs :: "poller_state \<Rightarrow> poller_state \<Rightarrow> bool" where
  "only_desired_differs s s' \<longleftrightarrow>
     PrevReadEvent s' = PrevReadEvent s \<and> PrevWriteEvent s' = PrevWriteEvent s \<and>
     maxfd s' = maxfd s \<and> fdtab_state s' = fdtab_state s \<and>
     ctl_log s' = ctl_log s \<and> cb_log s' = cb_log s"

text \<open>Two states with the same desired bit arrays.\<close>

definition same_desired :: "poller_state \<Rightarrow> poller_state \<Rightarrow> bool" where
  "same_desired s t \<longleftrightarrow>
     StaticReadEvent s = StaticReadEvent t \<and> StaticWriteEvent s = StaticWriteEvent t"

text \<open>The order in which \<open>epoll_init\<close> acquires its resources.\<close>

definition acquisition_order :: "resource list" where
  "acquisition_order = [Epoll_fd, Epoll_events, PrevRead, PrevWrite, StaticRead, StaticWrite]"

text \<open>
  The state in which a poll reaches record \<open>i\<close> of the event buffer: after the first
  loop and the dispatch of the records before \<open>i\<close>.
\<close>

definition poll_reaches ::
  "(dir \<Rightarrow> nat \<Rightarrow> globals \<Rightarrow> globals) \<Rightarrow> (nat \<Rightarrow> epoll_event) \<Rightarrow> nat \<Rightarrow>
   poller_state \<Rightarrow> poller_state" where
  "poll_reaches cb evs i s = event_loop cb (int i) evs 0 (chunk_loop 0 s)"

subsection \<open>Values for the examples\<close>

text \<open>
  A state for the examples: no interest anywhere, nothing told to the kernel, every
  descriptor open, empty logs.
\<close>

definition idle_state :: "int \<Rightarrow> poller_state" where
  "idle_state m =
     \<lparr>StaticReadEvent = (\<lambda>_. 0), StaticWriteEvent = (\<lambda>_. 0),
      PrevReadEvent = (\<lambda>_. 0), PrevWriteEvent = (\<lambda>_. 0),
      maxfd = m, fdtab_state = (\<lambda>_. FD_STOPEN), ctl_log = [], cb_log = []\<rparr>"

text \<open>A callback that touches nothing.\<close>

definition idle_cb :: "dir \<Rightarrow> nat \<Rightarrow> globals \<Rightarrow> globals" where
  "idle_cb dir fd g = g"

text \<open>An event buffer whose records all report a hangup on descriptor 5.\<close>

definition hup_events :: "nat \<Rightarrow> epoll_event" where
  "hup_events i = \<lparr>events = EPOLLHUP, data_fd = 5\<rparr>"

text \<open>Descriptor 5 wanted for reading and writing, and not yet known to the kernel.\<close>

definition both_wanted :: poller_state where
  "both_wanted = fd_set 5 DIR_WR (fd_set 5 DIR_RD (idle_state 8))"

text \<open>The owner of a descriptor marking it \<open>FD_STCLOSE\<close>.\<close>

definition mark_closed :: "nat \<Rightarrow> 'a globals_scheme \<Rightarrow> 'a globals_scheme" where
  "mark_closed fd s = s\<lparr>fdtab_state := (fdtab_state s)(fd := FD_STCLOSE)\<rparr>"

text \<open>
  A callback that closes its descriptor: the closed hook \<open>__fd_clo\<close>, and the state set
  to \<open>FD_STCLOSE\<close>.
\<close>

definition closing_cb :: "dir \<Rightarrow> nat \<Rightarrow> globals \<Rightarrow> globals" where
  "closing_cb dir fd g = mark_closed fd (fd_clo fd g)"

text \<open>The state in which the kernel has been told of every desired bit.\<close>

definition synced :: "poller_state \<Rightarrow> poller_state" where
  "synced s = s\<lparr>PrevReadEvent := StaticReadEvent s, PrevWriteEvent := StaticWriteEvent s\<rparr>"

text \<open>
  A buffer of two records: descriptor 6 is readable, then a hangup on descriptor 5.
\<close>

definition stale_events :: "nat \<Rightarrow> epoll_event" where
  "stale_events i =
     (if i = 0 then \<lparr>events = EPOLLIN, data_fd = 6\<rparr> else \<lparr>events = EPOLLHUP, data_fd = 5\<rparr>)"



text \<open>Descriptor 5 wanted for reading and writing, descriptor 6 for reading.\<close>

definition two_watched :: poller_state where
  "two_watched = fd_set 6 DIR_RD both_wanted"

text \<open>The callback of descriptor 6 withdraws the read interest of descriptor 5.\<close>

definition disarming_cb :: "dir \<Rightarrow> nat \<Rightarrow> globals \<Rightarrow> globals" where
  "disarming_cb dir fd g = (if fd = 6 then fd_clr 5 DIR_RD g else g)"

subsection \<open>Facts about the bit macros\<close>

lemma FD_ISSET_FD_SET:
  "FD_ISSET fd' (FD_SET fd ev) \<longleftrightarrow> fd' = fd \<or> FD_ISSET fd' ev"
proof (cases "fd' div 32 = fd div 32")
  case True
  have "fd' mod 32 = fd mod 32 \<longleftrightarrow> fd' = fd"
    using True by (metis div_mult_mod_eq)
  then show ?thesis
    using True by (auto simp: FD_ISSET_def FD_SET_def INTBITS_def bit_simps)
next
  case False
  then show ?thesis
    by (auto simp: FD_ISSET_def FD_SET_def INTBITS_def)
qed

lemma FD_ISSET_FD_CLR:
  "FD_ISSET fd' (FD_CLR fd ev) \<longleftrightarrow> fd' \<noteq> fd \<and> FD_ISSET fd' ev"
proof (cases "fd' div 32 = fd div 32")
  case True
  have "fd' mod 32 = fd mod 32 \<longleftrightarrow> fd' = fd"
    using True by (metis div_mult_mod_eq)
  then show ?thesis
    using True by (auto simp: FD_ISSET_def FD_CLR_def INTBITS_def bit_simps)
next
  case False
  then show ?thesis
    by (auto simp: FD_ISSET_def FD_CLR_def INTBITS_def)
qed

lemma FD_ISSET_zero: "\<not> FD_ISSET fd (\<lambda>_. 0)"
  by (simp add: FD_ISSET_def)

subsection \<open>What the first loop of the poll function computes\<close>

lemma bit_test: "drop_bit n (w :: 32 word) AND 1 = of_bool (bit w n)"
  by (simp add: and_one_eq bit_iff_odd_drop_bit mod_2_eq_odd)

lemma sync_fd_eq:
  assumes "count < 32" and "fd = 32 * fds + count"
    and "rn = StaticReadEvent s0 fds" and "ro = PrevReadEvent s0 fds"
    and "wn = StaticWriteEvent s0 fds" and "wo = PrevWriteEvent s0 fds"
    and "fdtab_state s = fdtab_state s0"
  shows "sync_fd rn ro wn wo count fd s = s\<lparr>ctl_log := ctl_log s @ fd_calls s0 fd\<rparr>"
proof -
  have d: "fd div 32 = fds" and m: "fd mod 32 = count"
    using assms(1,2) by simp_all
  show ?thesis
    using assms(3-7)
    by (simp add: sync_fd_def fd_calls_def FD_ISSET_def INTBITS_def d m bit_test Let_def
        epoll_ctl_def)
qed

lemma fd_loop_eq:
  assumes "count \<le> 32" and "fd = 32 * fds + count"
    and "rn = StaticReadEvent s0 fds" and "ro = PrevReadEvent s0 fds"
    and "wn = StaticWriteEvent s0 fds" and "wo = PrevWriteEvent s0 fds"
    and "fdtab_state s = fdtab_state s0"
  shows "fd_loop rn ro wn wo count fd s =
           s\<lparr>ctl_log := ctl_log s @
               concat (map (fd_calls s0) [fd ..< min (32 * fds + 32) (nat (maxfd s))])\<rparr>"
  using assms
proof (induction rn ro wn wo count fd s rule: fd_loop.induct)
  case (1 rn ro wn wo count fd s)
  show ?case
  proof (cases "count < 32 \<and> int fd < maxfd s")
    case True
    let ?s1 = "sync_fd rn ro wn wo count fd s"
    have s1: "?s1 = s\<lparr>ctl_log := ctl_log s @ fd_calls s0 fd\<rparr>"
      using True "1.prems" by (intro sync_fd_eq) auto
    have lt: "fd < min (32 * fds + 32) (nat (maxfd s))"
      using True "1.prems"(2) by auto
    have ih: "fd_loop rn ro wn wo (count + 1) (fd + 1) ?s1 =
           ?s1\<lparr>ctl_log := ctl_log ?s1 @
               concat (map (fd_calls s0) [fd + 1 ..< min (32 * fds + 32) (nat (maxfd ?s1))])\<rparr>"
    proof (rule "1.IH")
      show "count < 2 ^ INTBITS \<and> int fd < maxfd s"
        using True by (simp add: INTBITS_def)
      show "count + 1 \<le> 32"
        using True by simp
      show "fd + 1 = 32 * fds + (count + 1)"
        using "1.prems"(2) by simp
      show "fdtab_state ?s1 = fdtab_state s0"
        using "1.prems"(7) by (simp add: s1)
    qed (use "1.prems" in simp_all)
    have "fd_loop rn ro wn wo count fd s = fd_loop rn ro wn wo (count + 1) (fd + 1) ?s1"
      using True by (subst fd_loop.simps) (simp add: INTBITS_def)
    also have "\<dots> = s\<lparr>ctl_log := ctl_log s @ fd_calls s0 fd @
        concat (map (fd_calls s0) [fd + 1 ..< min (32 * fds + 32) (nat (maxfd s))])\<rparr>"
      unfolding ih unfolding s1 by simp
    also have "\<dots> = s\<lparr>ctl_log := ctl_log s @
        concat (map (fd_calls s0) [fd ..< min (32 * fds + 32) (nat (maxfd s))])\<rparr>"
      using lt by (simp add: upt_conv_Cons)
    finally show ?thesis .
  next
    case False
    then have "min (32 * fds + 32) (nat (maxfd s)) \<le> fd"
      using "1.prems"(1,2) by auto
    then show ?thesis
      using False by (subst fd_loop.simps) (auto simp: INTBITS_def)
  qed
qed

lemma fd_calls_same_words:
  assumes "PrevReadEvent s (fd div 32) = StaticReadEvent s (fd div 32)"
    and "PrevWriteEvent s (fd div 32) = StaticWriteEvent s (fd div 32)"
  shows "fd_calls s fd = []"
  using assms by (simp add: fd_calls_def FD_ISSET_def INTBITS_def)

lemma xor_eq_0: "a XOR b = 0 \<longleftrightarrow> a = b" for a b :: "32 word"
proof
  assume "a XOR b = 0"
  then have "a XOR (a XOR b) = a XOR 0"
    by simp
  then show "a = b"
    by (simp add: xor.assoc [symmetric])
qed simp

lemma words_differ: "(ro XOR rn) OR (wo XOR wn) = 0 \<longleftrightarrow> ro = rn \<and> wo = wn"
  for ro rn wo wn :: "32 word"
  by (simp add: or_eq_0_iff xor_eq_0)

lemma chunk_start: "push_bit INTBITS fds = 32 * fds" for fds :: nat
  by (simp add: INTBITS_def push_bit_eq_mult)

lemma sync_chunk_eq:
  "sync_chunk fds s =
     s\<lparr>PrevReadEvent := (PrevReadEvent s)(fds := StaticReadEvent s fds),
       PrevWriteEvent := (PrevWriteEvent s)(fds := StaticWriteEvent s fds),
       ctl_log := ctl_log s @
         concat (map (fd_calls s) [32 * fds ..< min (32 * fds + 32) (nat (maxfd s))])\<rparr>"
proof (cases "PrevReadEvent s fds = StaticReadEvent s fds \<and>
              PrevWriteEvent s fds = StaticWriteEvent s fds")
  case True
  have "\<forall>fd \<in> set [32 * fds ..< min (32 * fds + 32) (nat (maxfd s))]. fd_calls s fd = []"
  proof
    fix fd assume "fd \<in> set [32 * fds ..< min (32 * fds + 32) (nat (maxfd s))]"
    then have "fd div 32 = fds"
      by auto
    with True show "fd_calls s fd = []"
      by (simp add: fd_calls_same_words)
  qed
  then have none: "concat (map (fd_calls s) [32 * fds ..< min (32 * fds + 32) (nat (maxfd s))]) = []"
    by simp
  have "sync_chunk fds s = s"
    using True by (simp add: sync_chunk_def words_differ)
  moreover have "(PrevReadEvent s)(fds := StaticReadEvent s fds) = PrevReadEvent s"
    and "(PrevWriteEvent s)(fds := StaticWriteEvent s fds) = PrevWriteEvent s"
    using True by (simp_all add: fun_upd_idem)
  ultimately show ?thesis
    by (simp add: none)
next
  case False
  have loop: "fd_loop (StaticReadEvent s fds) (PrevReadEvent s fds) (StaticWriteEvent s fds)
           (PrevWriteEvent s fds) 0 (push_bit INTBITS fds) s =
        s\<lparr>ctl_log := ctl_log s @
            concat (map (fd_calls s) [32 * fds ..< min (32 * fds + 32) (nat (maxfd s))])\<rparr>"
    unfolding chunk_start by (rule fd_loop_eq) simp_all
  have "(PrevReadEvent s fds XOR StaticReadEvent s fds) OR
        (PrevWriteEvent s fds XOR StaticWriteEvent s fds) \<noteq> 0"
    using False by (simp add: words_differ)
  then show ?thesis
    unfolding sync_chunk_def Let_def loop by simp
qed

lemma fd_calls_cong:
  assumes "PrevReadEvent t (fd div 32) = PrevReadEvent s (fd div 32)"
    and "PrevWriteEvent t (fd div 32) = PrevWriteEvent s (fd div 32)"
    and "StaticReadEvent t (fd div 32) = StaticReadEvent s (fd div 32)"
    and "StaticWriteEvent t (fd div 32) = StaticWriteEvent s (fd div 32)"
    and "fdtab_state t fd = fdtab_state s fd"
  shows "fd_calls t fd = fd_calls s fd"
  using assms by (simp add: fd_calls_def FD_ISSET_def INTBITS_def Let_def)

text \<open>The state the first loop of \<open>epoll_poll\<close> leaves, from chunk \<open>fds\<close> on.\<close>

lemma chunk_loop_eq:
  "chunk_loop fds s =
     s\<lparr>PrevReadEvent := (\<lambda>i. if fds \<le> i \<and> int (32 * i) < maxfd s then StaticReadEvent s i
                             else PrevReadEvent s i),
       PrevWriteEvent := (\<lambda>i. if fds \<le> i \<and> int (32 * i) < maxfd s then StaticWriteEvent s i
                             else PrevWriteEvent s i),
       ctl_log := ctl_log s @ concat (map (fd_calls s) [32 * fds ..< nat (maxfd s)])\<rparr>"
proof (induction fds s rule: chunk_loop.induct)
  case (1 fds s)
  show ?case
  proof (cases "int (32 * fds) < maxfd s")
    case True
    let ?s1 = "sync_chunk fds s"
    let ?hi = "min (32 * fds + 32) (nat (maxfd s))"
    have s1: "?s1 = s\<lparr>PrevReadEvent := (PrevReadEvent s)(fds := StaticReadEvent s fds),
       PrevWriteEvent := (PrevWriteEvent s)(fds := StaticWriteEvent s fds),
       ctl_log := ctl_log s @ concat (map (fd_calls s) [32 * fds ..< ?hi])\<rparr>"
      by (rule sync_chunk_eq)
    have ih: "chunk_loop (fds + 1) ?s1 =
     ?s1\<lparr>PrevReadEvent := (\<lambda>i. if fds + 1 \<le> i \<and> int (32 * i) < maxfd ?s1
                               then StaticReadEvent ?s1 i else PrevReadEvent ?s1 i),
       PrevWriteEvent := (\<lambda>i. if fds + 1 \<le> i \<and> int (32 * i) < maxfd ?s1
                               then StaticWriteEvent ?s1 i else PrevWriteEvent ?s1 i),
       ctl_log := ctl_log ?s1 @ concat (map (fd_calls ?s1) [32 * (fds + 1) ..< nat (maxfd ?s1)])\<rparr>"
      using True by (intro "1.IH") (simp add: chunk_start)
    have later: "map (fd_calls ?s1) [32 * (fds + 1) ..< nat (maxfd s)] =
                 map (fd_calls s) [32 * (fds + 1) ..< nat (maxfd s)]"
    proof (rule map_cong [OF refl])
      fix fd assume "fd \<in> set [32 * (fds + 1) ..< nat (maxfd s)]"
      then have "fd div 32 \<noteq> fds"
        by auto
      then show "fd_calls ?s1 fd = fd_calls s fd"
        by (intro fd_calls_cong) (simp_all add: s1)
    qed
    have split: "[32 * fds ..< nat (maxfd s)] = [32 * fds ..< ?hi] @ [32 * (fds + 1) ..< nat (maxfd s)]"
    proof (cases "32 * fds + 32 \<le> nat (maxfd s)")
      case True
      then obtain k where k: "nat (maxfd s) = (32 * fds + 32) + k"
        using le_Suc_ex by blast
      have "[32 * fds ..< (32 * fds + 32) + k] = [32 * fds ..< 32 * fds + 32] @ [32 * fds + 32 ..< (32 * fds + 32) + k]"
        by (rule upt_add_eq_append) simp
      moreover have "32 * (fds + 1) = 32 * fds + 32"
        by simp
      ultimately show ?thesis
        unfolding k by (simp only: min_def) simp
    next
      case False
      then show ?thesis
        by (simp add: min_def)
    qed
    have cat: "concat (map (fd_calls s) [32 * fds ..< nat (maxfd s)]) =
               concat (map (fd_calls s) [32 * fds ..< ?hi]) @
               concat (map (fd_calls s) [32 * (fds + 1) ..< nat (maxfd s)])"
      by (subst split) (simp only: map_append concat_append)
    have pr: "(\<lambda>i. if fds + 1 \<le> i \<and> int (32 * i) < maxfd s then StaticReadEvent s i
                   else ((PrevReadEvent s)(fds := StaticReadEvent s fds)) i) =
              (\<lambda>i. if fds \<le> i \<and> int (32 * i) < maxfd s then StaticReadEvent s i
                   else PrevReadEvent s i)"
      using True by (auto simp: fun_eq_iff)
    have pw: "(\<lambda>i. if fds + 1 \<le> i \<and> int (32 * i) < maxfd s then StaticWriteEvent s i
                   else ((PrevWriteEvent s)(fds := StaticWriteEvent s fds)) i) =
              (\<lambda>i. if fds \<le> i \<and> int (32 * i) < maxfd s then StaticWriteEvent s i
                   else PrevWriteEvent s i)"
      using True by (auto simp: fun_eq_iff)
    have fields: "maxfd ?s1 = maxfd s"
      "StaticReadEvent ?s1 = StaticReadEvent s"
      "StaticWriteEvent ?s1 = StaticWriteEvent s"
      "PrevReadEvent ?s1 = (PrevReadEvent s)(fds := StaticReadEvent s fds)"
      "PrevWriteEvent ?s1 = (PrevWriteEvent s)(fds := StaticWriteEvent s fds)"
      "ctl_log ?s1 = ctl_log s @ concat (map (fd_calls s) [32 * fds ..< ?hi])"
      by (simp_all add: s1)
    have "chunk_loop fds s = chunk_loop (fds + 1) ?s1"
      using True by (subst chunk_loop.simps) (simp add: chunk_start)
    also have "\<dots> = s\<lparr>PrevReadEvent := (\<lambda>i. if fds + 1 \<le> i \<and> int (32 * i) < maxfd s
                               then StaticReadEvent s i
                               else ((PrevReadEvent s)(fds := StaticReadEvent s fds)) i),
       PrevWriteEvent := (\<lambda>i. if fds + 1 \<le> i \<and> int (32 * i) < maxfd s
                               then StaticWriteEvent s i
                               else ((PrevWriteEvent s)(fds := StaticWriteEvent s fds)) i),
       ctl_log := ctl_log s @ concat (map (fd_calls s) [32 * fds ..< ?hi]) @
                  concat (map (fd_calls s) [32 * (fds + 1) ..< nat (maxfd s)])\<rparr>"
      unfolding ih fields later unfolding s1 by simp
    also have "\<dots> = s\<lparr>PrevReadEvent := (\<lambda>i. if fds \<le> i \<and> int (32 * i) < maxfd s
                               then StaticReadEvent s i else PrevReadEvent s i),
       PrevWriteEvent := (\<lambda>i. if fds \<le> i \<and> int (32 * i) < maxfd s
                               then StaticWriteEvent s i else PrevWriteEvent s i),
       ctl_log := ctl_log s @ concat (map (fd_calls s) [32 * fds ..< nat (maxfd s)])\<rparr>"
      unfolding pr pw cat ..
    finally show ?thesis .
  next
    case False
    then have none: "[32 * fds ..< nat (maxfd s)] = []"
      by auto
    have "\<And>i. fds \<le> i \<Longrightarrow> \<not> int (32 * i) < maxfd s"
      using False by (smt (verit) mult_le_mono2 of_nat_le_iff)
    then have "(\<lambda>i. if fds \<le> i \<and> int (32 * i) < maxfd s then StaticReadEvent s i
                   else PrevReadEvent s i) = PrevReadEvent s"
      and "(\<lambda>i. if fds \<le> i \<and> int (32 * i) < maxfd s then StaticWriteEvent s i
                   else PrevWriteEvent s i) = PrevWriteEvent s"
      by (auto simp: fun_eq_iff)
    moreover have "chunk_loop fds s = s"
      using False by (subst chunk_loop.simps) (simp add: chunk_start)
    ultimately show ?thesis
      by (simp add: none)
  qed
qed

subsection \<open>The second loop, and the calls a poll issues\<close>

lemma truncate_fields:
  "StaticReadEvent (globals.truncate s) = StaticReadEvent s"
  "StaticWriteEvent (globals.truncate s) = StaticWriteEvent s"
  "PrevReadEvent (globals.truncate s) = PrevReadEvent s"
  "PrevWriteEvent (globals.truncate s) = PrevWriteEvent s"
  "maxfd (globals.truncate s) = maxfd s"
  "fdtab_state (globals.truncate s) = fdtab_state s"
  by (simp_all add: globals.defs)

lemma call_cb_fields:
  "ctl_log (call_cb cb d fd s) = ctl_log s"
  "cb_log (call_cb cb d fd s) = cb_log s @ [(d, fd)]"
  "StaticReadEvent (call_cb cb d fd s) = StaticReadEvent (cb d fd (globals.truncate s))"
  "StaticWriteEvent (call_cb cb d fd s) = StaticWriteEvent (cb d fd (globals.truncate s))"
  "PrevReadEvent (call_cb cb d fd s) = PrevReadEvent (cb d fd (globals.truncate s))"
  "PrevWriteEvent (call_cb cb d fd s) = PrevWriteEvent (cb d fd (globals.truncate s))"
  "maxfd (call_cb cb d fd s) = maxfd (cb d fd (globals.truncate s))"
  "fdtab_state (call_cb cb d fd s) = fdtab_state (cb d fd (globals.truncate s))"
  by (simp_all add: call_cb_def Let_def)

lemma dispatch_event_invariant:
  assumes "\<And>d s. P s \<Longrightarrow> P (call_cb cb d (data_fd e) s)" and "P s"
  shows "P (dispatch_event cb e s)"
  using assms by (simp add: dispatch_event_def Let_def)

lemma event_loop_invariant:
  assumes "\<And>d fd s. P s \<Longrightarrow> P (call_cb cb d fd s)" and "P s"
  shows "P (event_loop cb status evs count s)"
  using assms
proof (induction cb status evs count s rule: event_loop.induct)
  case (1 cb status evs count s)
  show ?case
  proof (cases "int count < status")
    case True
    have "P (dispatch_event cb (evs count) s)"
      by (rule dispatch_event_invariant [where P = P]) (simp_all add: "1.prems")
    then have "P (event_loop cb status evs (count + 1) (dispatch_event cb (evs count) s))"
      using True "1.prems"(1) by (intro "1.IH") simp_all
    with True show ?thesis
      by (subst event_loop.simps) simp
  next
    case False
    with "1.prems" show ?thesis
      by (subst event_loop.simps) simp
  qed
qed

lemma event_loop_ctl_log: "ctl_log (event_loop cb status evs count s) = ctl_log s"
  by (rule event_loop_invariant [where P = "\<lambda>t. ctl_log t = ctl_log s"])
    (simp_all add: call_cb_fields)

lemma ctl_issued_poll:
  "ctl_issued s (epoll_poll cb status evs s) = concat (map (fd_calls s) [0 ..< nat (maxfd s)])"
  using chunk_loop_eq [of 0 s]
  by (simp add: ctl_issued_def epoll_poll_def event_loop_ctl_log)

lemma fd_calls_same_bits:
  assumes "FD_ISSET fd (PrevReadEvent s) = FD_ISSET fd (StaticReadEvent s)"
    and "FD_ISSET fd (PrevWriteEvent s) = FD_ISSET fd (StaticWriteEvent s)"
  shows "fd_calls s fd = []"
  using assms by (simp add: fd_calls_def)

lemma fd_calls_fd: "c \<in> set (fd_calls s fd) \<Longrightarrow> ctl_fd c = fd"
  by (auto simp: fd_calls_def Let_def split: if_splits)

lemma fd_calls_length: "length (fd_calls s fd) \<le> 1"
  by (simp add: fd_calls_def Let_def)

lemma concat_map_single:
  assumes "\<forall>x \<in> set xs. x \<noteq> k \<longrightarrow> f x = []" and "distinct xs"
  shows "concat (map f xs) = (if k \<in> set xs then f k else [])"
  using assms by (induction xs) auto

lemma filter_concat_fd_calls:
  assumes "distinct xs"
  shows "filter (\<lambda>c. ctl_fd c = fd) (concat (map (fd_calls s) xs)) =
           (if fd \<in> set xs then fd_calls s fd else [])"
  using assms
proof (induction xs)
  case Nil
  then show ?case by simp
next
  case (Cons x xs)
  have own: "filter (\<lambda>c. ctl_fd c = x) (fd_calls s x) = fd_calls s x"
    by (simp add: fd_calls_fd)
  have other: "fd \<noteq> x \<Longrightarrow> filter (\<lambda>c. ctl_fd c = fd) (fd_calls s x) = []"
    by (auto simp: filter_empty_conv dest: fd_calls_fd)
  show ?case
    using Cons own other by auto
qed

lemma event_loop_bitsets:
  assumes "leaves_bitsets cb"
  shows "StaticReadEvent (event_loop cb status evs count s) = StaticReadEvent s \<and>
         StaticWriteEvent (event_loop cb status evs count s) = StaticWriteEvent s \<and>
         PrevReadEvent (event_loop cb status evs count s) = PrevReadEvent s \<and>
         PrevWriteEvent (event_loop cb status evs count s) = PrevWriteEvent s \<and>
         maxfd (event_loop cb status evs count s) \<le> maxfd s"
proof (rule event_loop_invariant [where P = "\<lambda>t. StaticReadEvent t = StaticReadEvent s \<and>
         StaticWriteEvent t = StaticWriteEvent s \<and> PrevReadEvent t = PrevReadEvent s \<and>
         PrevWriteEvent t = PrevWriteEvent s \<and> maxfd t \<le> maxfd s"])
  fix d fd and t :: poller_state
  assume "StaticReadEvent t = StaticReadEvent s \<and>
         StaticWriteEvent t = StaticWriteEvent s \<and> PrevReadEvent t = PrevReadEvent s \<and>
         PrevWriteEvent t = PrevWriteEvent s \<and> maxfd t \<le> maxfd s"
  moreover have "maxfd (cb d fd (globals.truncate t)) \<le> maxfd t"
    using assms by (metis leaves_bitsets_def truncate_fields(5))
  ultimately show "StaticReadEvent (call_cb cb d fd t) = StaticReadEvent s \<and>
         StaticWriteEvent (call_cb cb d fd t) = StaticWriteEvent s \<and>
         PrevReadEvent (call_cb cb d fd t) = PrevReadEvent s \<and>
         PrevWriteEvent (call_cb cb d fd t) = PrevWriteEvent s \<and>
         maxfd (call_cb cb d fd t) \<le> maxfd s"
    using assms by (simp add: call_cb_fields leaves_bitsets_def truncate_fields)
qed simp

lemma chunk_loop_fields:
  "StaticReadEvent (chunk_loop fds s) = StaticReadEvent s"
  "StaticWriteEvent (chunk_loop fds s) = StaticWriteEvent s"
  "maxfd (chunk_loop fds s) = maxfd s"
  "fdtab_state (chunk_loop fds s) = fdtab_state s"
  "cb_log (chunk_loop fds s) = cb_log s"
  "PrevReadEvent (chunk_loop fds s) =
     (\<lambda>i. if fds \<le> i \<and> int (32 * i) < maxfd s then StaticReadEvent s i else PrevReadEvent s i)"
  "PrevWriteEvent (chunk_loop fds s) =
     (\<lambda>i. if fds \<le> i \<and> int (32 * i) < maxfd s then StaticWriteEvent s i else PrevWriteEvent s i)"
  by (simp_all add: chunk_loop_eq)

lemma scanned_chunk: "int fd < m \<Longrightarrow> int (32 * (fd div 32)) < m"
  by linarith

subsection \<open>Reconciliation\<close>

text \<open>
  Claim C1. When the callbacks leave the bit arrays alone (and the descriptor range does
  not grow), a poll that follows a poll issues no \<open>epoll_ctl\<close> call at all, whatever
  the bit arrays, \<open>maxfd\<close>, the answers of the two waits and the callbacks of the second
  poll are; and this is because the first loop of the first poll leaves, in every chunk
  it scans, the previous words equal to the desired words.
\<close>

theorem poll_twice_idempotent:
  assumes "leaves_bitsets cb"
  shows "ctl_issued (epoll_poll cb status evs s)
           (epoll_poll cb' status' evs' (epoll_poll cb status evs s)) = [] \<and>
         (\<forall>fds. int (push_bit INTBITS fds) < maxfd s \<longrightarrow>
            PrevReadEvent (chunk_loop 0 s) fds = StaticReadEvent (chunk_loop 0 s) fds \<and>
            PrevWriteEvent (chunk_loop 0 s) fds = StaticWriteEvent (chunk_loop 0 s) fds)"
proof -
  let ?s1 = "chunk_loop 0 s"
  let ?s2 = "epoll_poll cb status evs s"
  have synced: "\<forall>fds. int (push_bit INTBITS fds) < maxfd s \<longrightarrow>
            PrevReadEvent ?s1 fds = StaticReadEvent ?s1 fds \<and>
            PrevWriteEvent ?s1 fds = StaticWriteEvent ?s1 fds"
    by (simp add: chunk_loop_fields chunk_start)
  have s2: "StaticReadEvent ?s2 = StaticReadEvent ?s1" "StaticWriteEvent ?s2 = StaticWriteEvent ?s1"
    "PrevReadEvent ?s2 = PrevReadEvent ?s1" "PrevWriteEvent ?s2 = PrevWriteEvent ?s1"
    "maxfd ?s2 \<le> maxfd s"
    using event_loop_bitsets [OF assms, of status evs 0 ?s1]
    by (simp_all add: epoll_poll_def chunk_loop_fields(3))
  have "\<forall>fd \<in> set [0 ..< nat (maxfd ?s2)]. fd_calls ?s2 fd = []"
  proof
    fix fd assume "fd \<in> set [0 ..< nat (maxfd ?s2)]"
    then have "int fd < maxfd s"
      using s2(5) by auto
    then have "int (push_bit INTBITS (fd div 32)) < maxfd s"
      unfolding chunk_start by (rule scanned_chunk)
    with synced show "fd_calls ?s2 fd = []"
      by (intro fd_calls_same_words) (simp_all add: s2)
  qed
  then have "ctl_issued ?s2 (epoll_poll cb' status' evs' ?s2) = []"
    unfolding ctl_issued_poll by simp
  with synced show ?thesis
    by blast
qed

lemma calls_for_poll:
  "calls_for fd (ctl_issued s (epoll_poll cb status evs s)) =
     (if int fd < maxfd s then fd_calls s fd else [])"
proof -
  have "fd \<in> set [0 ..< nat (maxfd s)] \<longleftrightarrow> int fd < maxfd s"
    by auto
  then show ?thesis
    unfolding calls_for_def ctl_issued_poll by (simp add: filter_concat_fd_calls)
qed

lemma calls_for_Nil: "calls_for fd l = [] \<longleftrightarrow> (\<forall>c \<in> set l. ctl_fd c \<noteq> fd)"
  by (auto simp: calls_for_def filter_empty_conv)

theorem poll_twice_idempotent_witness:
  "ctl_issued (epoll_poll idle_cb 1 hup_events both_wanted)
     (epoll_poll idle_cb 1 hup_events (epoll_poll idle_cb 1 hup_events both_wanted)) = [] \<and>
   PrevReadEvent (chunk_loop 0 both_wanted) 0 = StaticReadEvent (chunk_loop 0 both_wanted) 0 \<and>
   PrevWriteEvent (chunk_loop 0 both_wanted) 0 = StaticWriteEvent (chunk_loop 0 both_wanted) 0"
proof -
  have inert: "leaves_bitsets idle_cb"
    by (simp add: leaves_bitsets_def idle_cb_def)
  have scanned: "int (push_bit INTBITS 0) < maxfd both_wanted"
    by (simp add: both_wanted_def fd_set_def idle_state_def)
  show ?thesis
    using poll_twice_idempotent [OF inert, of 1 hup_events both_wanted idle_cb 1 hup_events] scanned
    by blast
qed

text \<open>
  Claim C2. Start from a state \<open>s0\<close> whose previous arrays equal its desired arrays,
  and let \<open>s\<close> differ from it in the desired bits of one descriptor \<open>k\<close> at most. Then
  the next poll issues at most one \<open>epoll_ctl\<close> call, and none for a descriptor other
  than \<open>k\<close>, whatever \<open>maxfd\<close> is.
\<close>

theorem single_change_single_call:
  assumes "PrevReadEvent s0 = StaticReadEvent s0" and "PrevWriteEvent s0 = StaticWriteEvent s0"
    and "PrevReadEvent s = PrevReadEvent s0" and "PrevWriteEvent s = PrevWriteEvent s0"
    and "\<forall>fd. fd \<noteq> k \<longrightarrow>
           FD_ISSET fd (StaticReadEvent s) = FD_ISSET fd (StaticReadEvent s0) \<and>
           FD_ISSET fd (StaticWriteEvent s) = FD_ISSET fd (StaticWriteEvent s0)"
  shows "length (ctl_issued s (epoll_poll cb status evs s)) \<le> 1 \<and>
         (\<forall>c \<in> set (ctl_issued s (epoll_poll cb status evs s)). ctl_fd c = k)"
proof -
  have quiet: "\<forall>fd \<in> set [0 ..< nat (maxfd s)]. fd \<noteq> k \<longrightarrow> fd_calls s fd = []"
  proof (intro ballI impI)
    fix fd assume "fd \<noteq> k"
    with assms(5) have "FD_ISSET fd (StaticReadEvent s) = FD_ISSET fd (StaticReadEvent s0)"
      and "FD_ISSET fd (StaticWriteEvent s) = FD_ISSET fd (StaticWriteEvent s0)"
      by simp_all
    then show "fd_calls s fd = []"
      by (intro fd_calls_same_bits) (simp_all add: assms(1-4))
  qed
  have "ctl_issued s (epoll_poll cb status evs s) =
          (if k \<in> set [0 ..< nat (maxfd s)] then fd_calls s k else [])"
    unfolding ctl_issued_poll using quiet by (rule concat_map_single) simp
  then show ?thesis
    using fd_calls_length [of s k] by (auto dest: fd_calls_fd)
qed

theorem single_change_single_call_witness:
  "length (ctl_issued (fd_set 5 DIR_RD (idle_state 8))
             (epoll_poll idle_cb 1 hup_events (fd_set 5 DIR_RD (idle_state 8)))) \<le> 1 \<and>
   list_all (\<lambda>c. ctl_fd c = 5)
     (ctl_issued (fd_set 5 DIR_RD (idle_state 8))
        (epoll_poll idle_cb 1 hup_events (fd_set 5 DIR_RD (idle_state 8))))"
proof -
  have a: "PrevReadEvent (idle_state 8) = StaticReadEvent (idle_state 8)"
    "PrevWriteEvent (idle_state 8) = StaticWriteEvent (idle_state 8)"
    "PrevReadEvent (fd_set 5 DIR_RD (idle_state 8)) = PrevReadEvent (idle_state 8)"
    "PrevWriteEvent (fd_set 5 DIR_RD (idle_state 8)) = PrevWriteEvent (idle_state 8)"
    by (simp_all add: idle_state_def fd_set_def)
  have b: "\<forall>fd. fd \<noteq> 5 \<longrightarrow>
           FD_ISSET fd (StaticReadEvent (fd_set 5 DIR_RD (idle_state 8))) =
             FD_ISSET fd (StaticReadEvent (idle_state 8)) \<and>
           FD_ISSET fd (StaticWriteEvent (fd_set 5 DIR_RD (idle_state 8))) =
             FD_ISSET fd (StaticWriteEvent (idle_state 8))"
    by (simp add: fd_set_def FD_ISSET_FD_SET)
  show ?thesis
    using single_change_single_call [OF a b, of idle_cb 1 hup_events]
    by (simp add: list_all_iff)
qed

text \<open>
  The model run on a small case: descriptor 5 gains read interest and is polled (one
  \<open>EPOLL_CTL_ADD\<close> with the read mask), then loses all interest and is polled again (one
  \<open>EPOLL_CTL_DEL\<close>); no other descriptor of the range gets a call.
\<close>

lemma add_then_remove_example:
  "ctl_issued (fd_set 5 DIR_RD (idle_state 8))
     (epoll_poll idle_cb 0 hup_events (fd_set 5 DIR_RD (idle_state 8))) =
     [Epoll_ctl EPOLL_CTL_ADD 5 EPOLLIN]"
  "ctl_issued (fd_rem 5 (synced (fd_set 5 DIR_RD (idle_state 8))))
     (epoll_poll idle_cb 0 hup_events (fd_rem 5 (synced (fd_set 5 DIR_RD (idle_state 8))))) =
     [Epoll_ctl EPOLL_CTL_DEL 5 0]"
proof -
  let ?a = "fd_set 5 DIR_RD (idle_state 8)"
  let ?r = "fd_rem 5 (synced (fd_set 5 DIR_RD (idle_state 8)))"
  have "\<forall>fd \<in> set [0 ..< nat (maxfd ?a)]. fd \<noteq> 5 \<longrightarrow> fd_calls ?a fd = []"
    by (auto intro!: fd_calls_same_bits simp: fd_set_def idle_state_def FD_ISSET_FD_SET)
  then have "concat (map (fd_calls ?a) [0 ..< nat (maxfd ?a)]) =
      (if 5 \<in> set [0 ..< nat (maxfd ?a)] then fd_calls ?a 5 else [])"
    by (rule concat_map_single) simp
  then show "ctl_issued ?a (epoll_poll idle_cb 0 hup_events ?a) = [Epoll_ctl EPOLL_CTL_ADD 5 EPOLLIN]"
    unfolding ctl_issued_poll
    by (simp add: fd_calls_def fd_set_def idle_state_def FD_ISSET_FD_SET FD_ISSET_zero)
  have "\<forall>fd \<in> set [0 ..< nat (maxfd ?r)]. fd \<noteq> 5 \<longrightarrow> fd_calls ?r fd = []"
    by (auto intro!: fd_calls_same_bits
        simp: fd_set_def fd_rem_def synced_def idle_state_def FD_ISSET_FD_SET FD_ISSET_FD_CLR)
  then have "concat (map (fd_calls ?r) [0 ..< nat (maxfd ?r)]) =
      (if 5 \<in> set [0 ..< nat (maxfd ?r)] then fd_calls ?r 5 else [])"
    by (rule concat_map_single) simp
  then show "ctl_issued ?r (epoll_poll idle_cb 0 hup_events ?r) = [Epoll_ctl EPOLL_CTL_DEL 5 0]"
    unfolding ctl_issued_poll
    by (simp add: fd_calls_def fd_set_def fd_rem_def synced_def idle_state_def
        FD_ISSET_FD_SET FD_ISSET_FD_CLR FD_ISSET_zero)
qed

text \<open>
  Claim C10. For a descriptor below \<open>maxfd\<close> whose state is \<open>FD_STCLOSE\<close>, the poll
  still issues \<open>EPOLL_CTL_ADD\<close> when the descriptor was not registered and is wanted, and
  \<open>EPOLL_CTL_MOD\<close> when it was registered, is still wanted and its interest changed,
  each with the wanted mask; when it was registered and is no longer wanted, no call is
  issued for it: the state check suppresses the \<open>EPOLL_CTL_DEL\<close> and nothing else.
\<close>

theorem closed_descriptor_add_and_modify:
  assumes "int fd < maxfd s" and "fdtab_state s fd = FD_STCLOSE"
  shows "(\<not> registered s fd \<and> wanted s fd \<longrightarrow>
            calls_for fd (ctl_issued s (epoll_poll cb status evs s)) =
              [Epoll_ctl EPOLL_CTL_ADD fd (wanted_mask s fd)]) \<and>
         (registered s fd \<and> wanted s fd \<and> changed s fd \<longrightarrow>
            calls_for fd (ctl_issued s (epoll_poll cb status evs s)) =
              [Epoll_ctl EPOLL_CTL_MOD fd (wanted_mask s fd)]) \<and>
         (registered s fd \<and> \<not> wanted s fd \<longrightarrow>
            calls_for fd (ctl_issued s (epoll_poll cb status evs s)) = [])"
  using assms unfolding calls_for_poll
  by (auto simp: fd_calls_def registered_def wanted_def changed_def wanted_mask_def Let_def)

theorem closed_descriptor_add_and_modify_witness:
  "calls_for 5 (ctl_issued (mark_closed 5 (fd_set 5 DIR_RD (idle_state 8)))
      (epoll_poll idle_cb 1 hup_events (mark_closed 5 (fd_set 5 DIR_RD (idle_state 8))))) =
     [Epoll_ctl EPOLL_CTL_ADD 5 (wanted_mask (mark_closed 5 (fd_set 5 DIR_RD (idle_state 8))) 5)] \<and>
   calls_for 5 (ctl_issued (mark_closed 5 (fd_set 5 DIR_WR (synced (fd_set 5 DIR_RD (idle_state 8)))))
      (epoll_poll idle_cb 1 hup_events
         (mark_closed 5 (fd_set 5 DIR_WR (synced (fd_set 5 DIR_RD (idle_state 8))))))) =
     [Epoll_ctl EPOLL_CTL_MOD 5
        (wanted_mask (mark_closed 5 (fd_set 5 DIR_WR (synced (fd_set 5 DIR_RD (idle_state 8))))) 5)] \<and>
   calls_for 5 (ctl_issued (mark_closed 5 (fd_rem 5 (synced (fd_set 5 DIR_RD (idle_state 8)))))
      (epoll_poll idle_cb 1 hup_events
         (mark_closed 5 (fd_rem 5 (synced (fd_set 5 DIR_RD (idle_state 8))))))) = []"
proof -
  let ?a = "mark_closed 5 (fd_set 5 DIR_RD (idle_state 8))"
  let ?m = "mark_closed 5 (fd_set 5 DIR_WR (synced (fd_set 5 DIR_RD (idle_state 8))))"
  let ?d = "mark_closed 5 (fd_rem 5 (synced (fd_set 5 DIR_RD (idle_state 8))))"
  have a: "int 5 < maxfd ?a" "fdtab_state ?a 5 = FD_STCLOSE" "\<not> registered ?a 5 \<and> wanted ?a 5"
    by (simp_all add: mark_closed_def fd_set_def idle_state_def registered_def wanted_def
        FD_ISSET_FD_SET FD_ISSET_zero)
  have m: "int 5 < maxfd ?m" "fdtab_state ?m 5 = FD_STCLOSE"
    "registered ?m 5 \<and> wanted ?m 5 \<and> changed ?m 5"
    by (simp_all add: mark_closed_def fd_set_def synced_def idle_state_def registered_def
        wanted_def changed_def FD_ISSET_FD_SET FD_ISSET_zero)
  have d: "int 5 < maxfd ?d" "fdtab_state ?d 5 = FD_STCLOSE" "registered ?d 5 \<and> \<not> wanted ?d 5"
    by (simp_all add: mark_closed_def fd_set_def fd_rem_def synced_def idle_state_def
        registered_def wanted_def FD_ISSET_FD_SET FD_ISSET_FD_CLR FD_ISSET_zero)
  show ?thesis
    using closed_descriptor_add_and_modify [OF a(1,2), of idle_cb 1 hup_events] a(3)
      closed_descriptor_add_and_modify [OF m(1,2), of idle_cb 1 hup_events] m(3)
      closed_descriptor_add_and_modify [OF d(1,2), of idle_cb 1 hup_events] d(3)
    by blast
qed

lemma poll_bitsets:
  assumes "leaves_bitsets cb"
  shows "StaticReadEvent (epoll_poll cb status evs s) = StaticReadEvent s"
    and "StaticWriteEvent (epoll_poll cb status evs s) = StaticWriteEvent s"
    and "PrevReadEvent (epoll_poll cb status evs s) = PrevReadEvent (chunk_loop 0 s)"
    and "PrevWriteEvent (epoll_poll cb status evs s) = PrevWriteEvent (chunk_loop 0 s)"
  using event_loop_bitsets [OF assms, of status evs 0 "chunk_loop 0 s"]
  by (simp_all add: epoll_poll_def chunk_loop_fields(1,2))

text \<open>
  Claim C9. A poll issues no \<open>epoll_ctl\<close> call for a descriptor \<open>d\<close> at or above
  \<open>maxfd\<close>, whatever its desired bits. If \<open>d\<close> lies in the chunk that holds
  \<open>maxfd - 1\<close>, the last one scanned, then after the poll the previous bits of \<open>d\<close> are
  its desired bits all the same (whether the chunk had changed, and was copied, or had
  not); so, as long as the bits are not touched again (here: callbacks that leave the
  arrays alone), no later poll issues a call for \<open>d\<close>, whatever \<open>maxfd\<close> has become.
\<close>

theorem beyond_maxfd_never_registered:
  assumes "maxfd s \<le> int d"
  shows "calls_for d (ctl_issued s (epoll_poll cb status evs s)) = [] \<and>
         (leaves_bitsets cb \<and> 0 < maxfd s \<and>
          d div 2 ^ INTBITS = nat (maxfd s - 1) div 2 ^ INTBITS \<longrightarrow>
            FD_ISSET d (PrevReadEvent (epoll_poll cb status evs s)) =
              FD_ISSET d (StaticReadEvent s) \<and>
            FD_ISSET d (PrevWriteEvent (epoll_poll cb status evs s)) =
              FD_ISSET d (StaticWriteEvent s) \<and>
            (\<forall>m cb' status' evs'.
               calls_for d (ctl_issued ((epoll_poll cb status evs s)\<lparr>maxfd := m\<rparr>)
                 (epoll_poll cb' status' evs' ((epoll_poll cb status evs s)\<lparr>maxfd := m\<rparr>))) = []))"
proof -
  let ?s2 = "epoll_poll cb status evs s"
  have none: "calls_for d (ctl_issued s ?s2) = []"
    using assms by (simp add: calls_for_poll)
  have copied: "FD_ISSET d (PrevReadEvent ?s2) = FD_ISSET d (StaticReadEvent s) \<and>
            FD_ISSET d (PrevWriteEvent ?s2) = FD_ISSET d (StaticWriteEvent s) \<and>
            (\<forall>m cb' status' evs'.
               calls_for d (ctl_issued (?s2\<lparr>maxfd := m\<rparr>)
                 (epoll_poll cb' status' evs' (?s2\<lparr>maxfd := m\<rparr>))) = [])"
    if inert: "leaves_bitsets cb" and pos: "0 < maxfd s"
      and chunk: "d div 2 ^ INTBITS = nat (maxfd s - 1) div 2 ^ INTBITS"
  proof -
    have "int (32 * (nat (maxfd s - 1) div 32)) < maxfd s"
      using pos by linarith
    then have scanned: "int (32 * (d div 32)) < maxfd s"
      using chunk by (simp add: INTBITS_def)
    have r: "PrevReadEvent ?s2 (d div 32) = StaticReadEvent s (d div 32)"
      and w: "PrevWriteEvent ?s2 (d div 32) = StaticWriteEvent s (d div 32)"
      using scanned by (simp_all add: poll_bitsets [OF inert] chunk_loop_fields)
    have bits: "FD_ISSET d (PrevReadEvent ?s2) = FD_ISSET d (StaticReadEvent s)"
      "FD_ISSET d (PrevWriteEvent ?s2) = FD_ISSET d (StaticWriteEvent s)"
      using r w by (simp_all add: FD_ISSET_def INTBITS_def)
    have "fd_calls (?s2\<lparr>maxfd := m\<rparr>) d = []" for m
      by (rule fd_calls_same_bits) (simp_all add: bits poll_bitsets(1,2) [OF inert])
    then show ?thesis
      using bits by (simp add: calls_for_poll)
  qed
  from none copied show ?thesis
    by blast
qed

theorem beyond_maxfd_never_registered_witness:
  "calls_for 6 (ctl_issued (fd_set 6 DIR_RD (idle_state 3))
      (epoll_poll idle_cb 1 hup_events (fd_set 6 DIR_RD (idle_state 3)))) = [] \<and>
   FD_ISSET 6 (PrevReadEvent (epoll_poll idle_cb 1 hup_events (fd_set 6 DIR_RD (idle_state 3)))) =
     FD_ISSET 6 (StaticReadEvent (fd_set 6 DIR_RD (idle_state 3))) \<and>
   calls_for 6 (ctl_issued
      ((epoll_poll idle_cb 1 hup_events (fd_set 6 DIR_RD (idle_state 3)))\<lparr>maxfd := 8\<rparr>)
      (epoll_poll idle_cb 1 hup_events
         ((epoll_poll idle_cb 1 hup_events (fd_set 6 DIR_RD (idle_state 3)))\<lparr>maxfd := 8\<rparr>))) = []"
proof -
  have beyond: "maxfd (fd_set 6 DIR_RD (idle_state 3)) \<le> int 6"
    by (simp add: fd_set_def idle_state_def)
  have inert: "leaves_bitsets idle_cb"
    by (simp add: leaves_bitsets_def idle_cb_def)
  have last_chunk: "0 < maxfd (fd_set 6 DIR_RD (idle_state 3)) \<and>
      6 div 2 ^ INTBITS = nat (maxfd (fd_set 6 DIR_RD (idle_state 3)) - 1) div 2 ^ INTBITS"
    by (simp add: fd_set_def idle_state_def INTBITS_def)
  show ?thesis
    using beyond_maxfd_never_registered [OF beyond, of idle_cb 1 hup_events] inert last_chunk
    by blast
qed




subsection \<open>Closed descriptors, dispatch and the wait call\<close>



lemma event_loop_none: "status \<le> int count \<Longrightarrow> event_loop cb status evs count s = s"
  by (subst event_loop.simps) simp

lemma event_loop_one: "event_loop cb 1 evs 0 s = dispatch_event cb (evs 0) s"
  by (subst event_loop.simps) (simp add: event_loop_none)

lemma hup_or_err:
  assumes "ev = EPOLLHUP \<or> ev = EPOLLERR"
  shows "ev AND (EPOLLIN OR EPOLLERR OR EPOLLHUP) \<noteq> 0"
    and "ev AND (EPOLLOUT OR EPOLLERR OR EPOLLHUP) \<noteq> 0"
  using assms by (auto simp: EPOLLIN_def EPOLLOUT_def EPOLLERR_def EPOLLHUP_def)

lemma dispatch_event_hangup:
  assumes "FD_ISSET (data_fd e) (StaticReadEvent s)"
    and "fdtab_state s (data_fd e) \<noteq> FD_STCLOSE"
    and "events e = EPOLLHUP \<or> events e = EPOLLERR"
  shows "cb_dispatched s (dispatch_event cb e s) =
           (DIR_RD, data_fd e) #
           (if FD_ISSET (data_fd e) (StaticWriteEvent (cb DIR_RD (data_fd e) (globals.truncate s))) \<and>
               fdtab_state (cb DIR_RD (data_fd e) (globals.truncate s)) (data_fd e) \<noteq> FD_STCLOSE
            then [(DIR_WR, data_fd e)] else [])"
  using assms hup_or_err [OF assms(3)]
  by (simp add: dispatch_event_def Let_def cb_dispatched_def call_cb_fields)

lemma poll_one_record:
  "cb_dispatched s (epoll_poll cb 1 evs s) =
     cb_dispatched (chunk_loop 0 s) (dispatch_event cb (evs 0) (chunk_loop 0 s))"
  by (simp add: epoll_poll_def event_loop_one cb_dispatched_def chunk_loop_fields)

lemma event_loop_split:
  assumes "count \<le> i" and "int i \<le> status"
  shows "event_loop cb status evs count s =
           event_loop cb status evs i (event_loop cb (int i) evs count s)"
  using assms
proof (induction cb "int i" evs count s rule: event_loop.induct)
  case (1 cb evs count s)
  show ?case
  proof (cases "count < i")
    case True
    have "event_loop cb status evs count s =
            event_loop cb status evs (count + 1) (dispatch_event cb (evs count) s)"
      using True "1.prems"(2) by (subst event_loop.simps) simp
    also have "\<dots> = event_loop cb status evs i
                 (event_loop cb (int i) evs (count + 1) (dispatch_event cb (evs count) s))"
      using True "1.prems"(2) by (intro "1.hyps") simp_all
    also have "event_loop cb (int i) evs (count + 1) (dispatch_event cb (evs count) s) =
                 event_loop cb (int i) evs count s"
      using True by (subst (2) event_loop.simps) simp
    finally show ?thesis .
  next
    case False
    then have "count = i"
      using "1.prems"(1) by simp
    then show ?thesis
      by (simp add: event_loop_none)
  qed
qed

lemma event_loop_step:
  "int count < status \<Longrightarrow>
     event_loop cb status evs count s =
       event_loop cb status evs (count + 1) (dispatch_event cb (evs count) s)"
  by (subst event_loop.simps) simp

lemma poll_at_record:
  assumes "int i < status"
  shows "epoll_poll cb status evs s =
           event_loop cb status evs (i + 1) (dispatch_event cb (evs i) (poll_reaches cb evs i s))"
proof -
  have "epoll_poll cb status evs s = event_loop cb status evs i (poll_reaches cb evs i s)"
    unfolding epoll_poll_def poll_reaches_def using assms by (intro event_loop_split) simp_all
  then show ?thesis
    using assms by (simp add: event_loop_step)
qed

lemma call_cb_grows: "\<exists>l. cb_log (call_cb cb d fd s) = cb_log s @ l"
  by (simp add: call_cb_fields)

lemma event_loop_grows: "\<exists>l. cb_log (event_loop cb status evs count s) = cb_log s @ l"
  by (rule event_loop_invariant [where P = "\<lambda>t. \<exists>l. cb_log t = cb_log s @ l"])
    (auto simp: call_cb_fields)

lemma dispatch_event_grows: "\<exists>l. cb_log (dispatch_event cb e s) = cb_log s @ l"
  by (rule dispatch_event_invariant [where P = "\<lambda>t. \<exists>l. cb_log t = cb_log s @ l"])
    (auto simp: call_cb_fields)

lemma cb_dispatched_trans:
  assumes "\<exists>l. cb_log t = cb_log s @ l" and "\<exists>l. cb_log u = cb_log t @ l"
  shows "cb_dispatched s u = cb_dispatched s t @ cb_dispatched t u"
  using assms by (auto simp: cb_dispatched_def)

lemma poll_reaches_grows: "\<exists>l. cb_log (poll_reaches cb evs i s) = cb_log s @ l"
  using event_loop_grows [of cb "int i" evs 0 "chunk_loop 0 s"]
  by (simp add: poll_reaches_def chunk_loop_fields)

lemma event_loop_two:
  "event_loop cb 2 evs 0 s = dispatch_event cb (evs 1) (dispatch_event cb (evs 0) s)"
proof -
  have "event_loop cb 2 evs 0 s = event_loop cb 2 evs (0 + 1) (dispatch_event cb (evs 0) s)"
    by (rule event_loop_step) simp
  also have "\<dots> = event_loop cb 2 evs (1 + 1) (dispatch_event cb (evs 1) (dispatch_event cb (evs 0) s))"
    using event_loop_step [of 1 2 cb evs "dispatch_event cb (evs 0) s"] by simp
  also have "\<dots> = dispatch_event cb (evs 1) (dispatch_event cb (evs 0) s)"
    by (rule event_loop_none) simp
  finally show ?thesis .
qed

lemma poll_two_records:
  "cb_dispatched s (epoll_poll cb 2 evs s) =
     cb_dispatched (chunk_loop 0 s)
       (dispatch_event cb (evs 1) (dispatch_event cb (evs 0) (chunk_loop 0 s)))"
  by (simp add: epoll_poll_def event_loop_two cb_dispatched_def chunk_loop_fields)

lemma poll_reaches_first: "poll_reaches cb evs 0 s = chunk_loop 0 s"
  by (simp add: poll_reaches_def event_loop_none)


text \<open>
  Claim C4, as the code has it. Take record \<open>i\<close> of a wait that returned more than \<open>i\<close>
  records, with a mask that is the hangup flag alone or the error flag alone, and let its
  descriptor, in the state in which the poll reaches the record (the callbacks of the
  earlier records have run), have both desired bits set and a state other than
  \<open>FD_STCLOSE\<close>. Then for that record the read callback is invoked once, and after it
  the write callback once if, in the globals the read callback left, the desired-write
  bit of the descriptor is still set and its state is still not \<open>FD_STCLOSE\<close>; otherwise
  the write callback is not invoked for the record. The callbacks of the whole poll are
  those of the earlier records, then these, then those of the later records.
\<close>

theorem hangup_dispatch:
  assumes "int i < status"
    and "FD_ISSET fd (StaticReadEvent (poll_reaches cb evs i s))"
    and "FD_ISSET fd (StaticWriteEvent (poll_reaches cb evs i s))"
    and "fdtab_state (poll_reaches cb evs i s) fd \<noteq> FD_STCLOSE"
    and "data_fd (evs i) = fd"
    and "events (evs i) = EPOLLHUP \<or> events (evs i) = EPOLLERR"
  shows "cb_dispatched (poll_reaches cb evs i s) (dispatch_event cb (evs i) (poll_reaches cb evs i s)) =
           (DIR_RD, fd) #
           (if FD_ISSET fd (StaticWriteEvent (cb DIR_RD fd (globals.truncate (poll_reaches cb evs i s)))) \<and>
               fdtab_state (cb DIR_RD fd (globals.truncate (poll_reaches cb evs i s))) fd \<noteq> FD_STCLOSE
            then [(DIR_WR, fd)] else []) \<and>
         cb_dispatched s (epoll_poll cb status evs s) =
           cb_dispatched s (poll_reaches cb evs i s) @
           cb_dispatched (poll_reaches cb evs i s) (dispatch_event cb (evs i) (poll_reaches cb evs i s)) @
           cb_dispatched (dispatch_event cb (evs i) (poll_reaches cb evs i s))
             (epoll_poll cb status evs s)"
proof -
  let ?t = "poll_reaches cb evs i s"
  let ?t' = "dispatch_event cb (evs i) ?t"
  let ?u = "epoll_poll cb status evs s"
  have rec_calls: "cb_dispatched ?t ?t' =
           (DIR_RD, fd) #
           (if FD_ISSET fd (StaticWriteEvent (cb DIR_RD fd (globals.truncate ?t))) \<and>
               fdtab_state (cb DIR_RD fd (globals.truncate ?t)) fd \<noteq> FD_STCLOSE
            then [(DIR_WR, fd)] else [])"
    using dispatch_event_hangup [of "evs i" ?t cb] assms(2,4,5,6) by simp
  have u: "?u = event_loop cb status evs (i + 1) ?t'"
    using assms(1) by (rule poll_at_record)
  have g1: "\<exists>l. cb_log ?t = cb_log s @ l"
    by (rule poll_reaches_grows)
  have g2: "\<exists>l. cb_log ?t' = cb_log ?t @ l"
    by (rule dispatch_event_grows)
  have g3: "\<exists>l. cb_log ?u = cb_log ?t' @ l"
    unfolding u by (rule event_loop_grows)
  have g13: "\<exists>l. cb_log ?u = cb_log ?t @ l"
    using g2 g3 by auto
  have "cb_dispatched s ?u = cb_dispatched s ?t @ cb_dispatched ?t ?u"
    using g1 g13 by (rule cb_dispatched_trans)
  also have "cb_dispatched ?t ?u = cb_dispatched ?t ?t' @ cb_dispatched ?t' ?u"
    using g2 g3 by (rule cb_dispatched_trans)
  finally show ?thesis
    using rec_calls by blast
qed

lemma both_wanted_facts:
  "FD_ISSET 5 (StaticReadEvent both_wanted)" "FD_ISSET 5 (StaticWriteEvent both_wanted)"
  "fdtab_state both_wanted 5 \<noteq> FD_STCLOSE" "data_fd (hup_events 0) = 5"
  "events (hup_events 0) = EPOLLHUP"
  by (simp_all add: both_wanted_def fd_set_def idle_state_def FD_ISSET_FD_SET hup_events_def)

lemma poll_reaches_second:
  "poll_reaches cb evs 1 s = dispatch_event cb (evs 0) (chunk_loop 0 s)"
  by (simp add: poll_reaches_def event_loop_one)

theorem hangup_dispatch_witness:
  "cb_dispatched both_wanted (epoll_poll idle_cb 1 hup_events both_wanted) =
     [(DIR_RD, 5), (DIR_WR, 5)] \<and>
   cb_dispatched (poll_reaches idle_cb stale_events 1 two_watched)
     (dispatch_event idle_cb (stale_events 1) (poll_reaches idle_cb stale_events 1 two_watched)) =
     [(DIR_RD, 5), (DIR_WR, 5)]"
proof -
  let ?t = "poll_reaches idle_cb hup_events 0 both_wanted"
  have t: "?t = chunk_loop 0 both_wanted"
    by (rule poll_reaches_first)
  have first: "int 0 < 1"
    by simp
  have bits: "FD_ISSET 5 (StaticReadEvent ?t)" "FD_ISSET 5 (StaticWriteEvent ?t)"
    "fdtab_state ?t 5 \<noteq> FD_STCLOSE"
    unfolding t by (simp_all add: chunk_loop_fields both_wanted_facts)
  have hup: "events (hup_events 0) = EPOLLHUP \<or> events (hup_events 0) = EPOLLERR"
    by (simp add: both_wanted_facts)
  have before: "cb_dispatched both_wanted ?t = []"
    unfolding t by (simp add: cb_dispatched_def chunk_loop_fields)
  have last: "epoll_poll idle_cb 1 hup_events both_wanted = dispatch_event idle_cb (hup_events 0) ?t"
    unfolding t by (simp add: epoll_poll_def event_loop_one)
  have after: "cb_dispatched (dispatch_event idle_cb (hup_events 0) ?t)
                 (epoll_poll idle_cb 1 hup_events both_wanted) = []"
    unfolding last by (simp add: cb_dispatched_def)
  have one: "cb_dispatched both_wanted (epoll_poll idle_cb 1 hup_events both_wanted) =
     [(DIR_RD, 5), (DIR_WR, 5)]"
    using hangup_dispatch [where i = 0 and status = 1 and fd = 5 and cb = idle_cb
        and evs = hup_events and s = both_wanted, OF first bits both_wanted_facts(4) hup]
    by (simp add: before after idle_cb_def truncate_fields bits)
  let ?u = "poll_reaches idle_cb stale_events 1 two_watched"
  have second: "int 1 < 2"
    by simp
  have ubits: "FD_ISSET 5 (StaticReadEvent ?u)" "FD_ISSET 5 (StaticWriteEvent ?u)"
    "fdtab_state ?u 5 \<noteq> FD_STCLOSE"
    unfolding poll_reaches_second
    by (simp_all add: dispatch_event_def Let_def call_cb_fields truncate_fields idle_cb_def
        chunk_loop_fields two_watched_def fd_set_def both_wanted_def idle_state_def FD_ISSET_FD_SET)
  have rec1: "data_fd (stale_events 1) = 5"
    "events (stale_events 1) = EPOLLHUP \<or> events (stale_events 1) = EPOLLERR"
    by (simp_all add: stale_events_def)
  have two: "cb_dispatched ?u (dispatch_event idle_cb (stale_events 1) ?u) =
     [(DIR_RD, 5), (DIR_WR, 5)]"
    using hangup_dispatch [where i = 1 and status = 2 and fd = 5 and cb = idle_cb
        and evs = stale_events and s = two_watched, OF second ubits rec1] ubits
    by (simp add: idle_cb_def truncate_fields)
  from one two show ?thesis
    by blast
qed

text \<open>
  Why the state is taken when the poll reaches the record: descriptor 5 has both desired
  bits set and is open when the wait returns, but the callback of the record before its
  hangup record withdraws its read interest, and only its write callback is invoked.
\<close>

lemma hangup_after_disarm_example:
  "FD_ISSET 5 (StaticReadEvent two_watched) \<and> FD_ISSET 5 (StaticWriteEvent two_watched) \<and>
   fdtab_state two_watched 5 = FD_STOPEN \<and>
   cb_dispatched two_watched (epoll_poll disarming_cb 2 stale_events two_watched) =
     [(DIR_RD, 6), (DIR_WR, 5)]"
proof -
  let ?s1 = "chunk_loop 0 two_watched"
  let ?t1 = "dispatch_event disarming_cb (stale_events 0) ?s1"
  let ?t2 = "dispatch_event disarming_cb (stale_events 1) ?t1"
  have s0: "FD_ISSET 5 (StaticReadEvent two_watched)" "FD_ISSET 5 (StaticWriteEvent two_watched)"
    "fdtab_state two_watched 5 = FD_STOPEN"
    by (simp_all add: two_watched_def fd_set_def both_wanted_def idle_state_def FD_ISSET_FD_SET)
  have s1: "FD_ISSET 6 (StaticReadEvent ?s1)" "\<not> FD_ISSET 6 (StaticWriteEvent ?s1)"
    "fdtab_state ?s1 6 \<noteq> FD_STCLOSE" "FD_ISSET 5 (StaticWriteEvent ?s1)"
    "fdtab_state ?s1 5 \<noteq> FD_STCLOSE"
    by (simp_all add: chunk_loop_fields two_watched_def fd_set_def both_wanted_def idle_state_def
        FD_ISSET_FD_SET FD_ISSET_zero)
  have t1: "cb_log ?t1 = cb_log ?s1 @ [(DIR_RD, 6)]" "\<not> FD_ISSET 5 (StaticReadEvent ?t1)"
    "FD_ISSET 5 (StaticWriteEvent ?t1)" "fdtab_state ?t1 5 \<noteq> FD_STCLOSE"
    using s1
    by (simp_all add: dispatch_event_def Let_def stale_events_def EPOLLIN_def EPOLLOUT_def EPOLLERR_def EPOLLHUP_def
        call_cb_fields
        truncate_fields disarming_cb_def fd_clr_def FD_ISSET_FD_CLR)
  have t2: "cb_log ?t2 = cb_log ?t1 @ [(DIR_WR, 5)]"
    using t1(2-4)
    by (simp add: dispatch_event_def Let_def stale_events_def EPOLLIN_def EPOLLOUT_def EPOLLERR_def EPOLLHUP_def
        call_cb_fields)
  have "cb_dispatched ?s1 ?t2 = [(DIR_RD, 6), (DIR_WR, 5)]"
    unfolding cb_dispatched_def t2 t1(1) by simp
  then show ?thesis
    unfolding poll_two_records using s0 by simp
qed

text \<open>
  Claim C4 as stated fails: descriptor 5 is wanted for reading and writing and is open,
  the wait returns one record for it with the hangup flag alone, and the read callback
  closes the descriptor. The write callback is not invoked: the source tests the write
  bit and the state again after the read callback has run.
\<close>

theorem hangup_read_closes_counterexample:
  "FD_ISSET 5 (StaticReadEvent both_wanted) \<and> FD_ISSET 5 (StaticWriteEvent both_wanted) \<and>
   fdtab_state both_wanted 5 = FD_STOPEN \<and>
   data_fd (hup_events 0) = 5 \<and> events (hup_events 0) = EPOLLHUP \<and>
   cb_dispatched both_wanted (epoll_poll closing_cb 1 hup_events both_wanted) = [(DIR_RD, 5)]"
proof -
  let ?s1 = "chunk_loop 0 both_wanted"
  have "cb_dispatched ?s1 (dispatch_event closing_cb (hup_events 0) ?s1) =
           (DIR_RD, data_fd (hup_events 0)) #
           (if FD_ISSET (data_fd (hup_events 0))
                 (StaticWriteEvent (closing_cb DIR_RD (data_fd (hup_events 0)) (globals.truncate ?s1))) \<and>
               fdtab_state (closing_cb DIR_RD (data_fd (hup_events 0)) (globals.truncate ?s1))
                 (data_fd (hup_events 0)) \<noteq> FD_STCLOSE
            then [(DIR_WR, data_fd (hup_events 0))] else [])"
    by (rule dispatch_event_hangup) (simp_all add: chunk_loop_fields both_wanted_facts)
  then have "cb_dispatched both_wanted (epoll_poll closing_cb 1 hup_events both_wanted) = [(DIR_RD, 5)]"
    unfolding poll_one_record
    by (simp add: both_wanted_facts closing_cb_def mark_closed_def)
  moreover have "fdtab_state both_wanted 5 = FD_STOPEN"
    by (simp add: both_wanted_def fd_set_def idle_state_def)
  ultimately show ?thesis
    by (simp add: both_wanted_facts)
qed

lemma poll_no_events: "status \<le> 0 \<Longrightarrow> epoll_poll cb status evs s = chunk_loop 0 s"
  by (simp add: epoll_poll_def event_loop_none)

text \<open>
  Claim C7, as the code has it. \<open>epoll_poll\<close> returns nothing, and a negative status
  of the wait call only makes the dispatch loop run no iteration: the state the poll
  leaves is the state it leaves for a status of 0, and no callback is invoked.
\<close>

theorem wait_failure_as_no_event:
  "status < 0 \<longrightarrow>
     epoll_poll cb status evs s = epoll_poll cb 0 evs s \<and>
     cb_dispatched s (epoll_poll cb status evs s) = []"
  by (simp add: poll_no_events cb_dispatched_def chunk_loop_fields)

theorem wait_failure_as_no_event_witness:
  "epoll_poll idle_cb (- 1) hup_events (synced both_wanted) =
     epoll_poll idle_cb 0 hup_events (synced both_wanted) \<and>
   cb_dispatched (synced both_wanted) (epoll_poll idle_cb (- 1) hup_events (synced both_wanted)) = []"
proof -
  have failed: "(- 1 :: int) < 0"
    by simp
  show ?thesis
    using wait_failure_as_no_event [of "- 1" idle_cb hup_events "synced both_wanted"] failed
    by blast
qed

text \<open>
  Claim C7 as stated fails: with a status of -1 and with a status of 0 the poll leaves
  the same state, so its caller cannot tell a failed wait from an empty ready set.
\<close>

theorem wait_failure_counterexample:
  "epoll_poll closing_cb (- 1) hup_events both_wanted =
     epoll_poll closing_cb 0 hup_events both_wanted"
  by (simp add: poll_no_events)

subsection \<open>The accessors\<close>

lemma fd_isset_fd_set:
  "fd_isset fd' dir' (fd_set fd dir s) \<longleftrightarrow> (fd' = fd \<and> dir' = dir) \<or> fd_isset fd' dir' s"
  by (cases dir; cases dir') (auto simp: fd_isset_def fd_set_def FD_ISSET_FD_SET)

lemma fd_isset_fd_clr:
  "fd_isset fd' dir' (fd_clr fd dir s) \<longleftrightarrow> \<not> (fd' = fd \<and> dir' = dir) \<and> fd_isset fd' dir' s"
  by (cases dir; cases dir') (auto simp: fd_isset_def fd_clr_def FD_ISSET_FD_CLR)

lemma fd_isset_fd_rem:
  "fd_isset fd' dir' (fd_rem fd s) \<longleftrightarrow> fd' \<noteq> fd \<and> fd_isset fd' dir' s"
  by (cases dir') (auto simp: fd_isset_def fd_rem_def FD_ISSET_FD_CLR)

lemma fd_cond_s_eq:
  "fd_cond_s fd dir s = (if fd_isset fd dir s then (False, s) else (True, fd_set fd dir s))"
  by (simp add: fd_cond_s_def fd_isset_def fd_set_def Let_def)

lemma fd_cond_c_eq:
  "fd_cond_c fd dir s = (if fd_isset fd dir s then (True, fd_clr fd dir s) else (False, s))"
  by (simp add: fd_cond_c_def fd_isset_def fd_clr_def Let_def)

lemma only_desired_differs_refl: "only_desired_differs s s"
  by (simp add: only_desired_differs_def)

lemma only_desired_differs_fd_set: "only_desired_differs s (fd_set fd dir s)"
  by (simp add: only_desired_differs_def fd_set_def)

lemma only_desired_differs_fd_clr: "only_desired_differs s (fd_clr fd dir s)"
  by (simp add: only_desired_differs_def fd_clr_def)

lemma only_desired_differs_fd_rem: "only_desired_differs s (fd_rem fd s)"
  by (simp add: only_desired_differs_def fd_rem_def)

lemma same_desired_fd_isset: "same_desired s t \<Longrightarrow> fd_isset fd dir s = fd_isset fd dir t"
  by (simp add: same_desired_def fd_isset_def)

lemma same_desired_fd_set: "same_desired s t \<Longrightarrow> same_desired (fd_set fd dir s) (fd_set fd dir t)"
  by (simp add: same_desired_def fd_set_def)

lemma same_desired_fd_clr: "same_desired s t \<Longrightarrow> same_desired (fd_clr fd dir s) (fd_clr fd dir t)"
  by (simp add: same_desired_def fd_clr_def)

lemma same_desired_fd_rem: "same_desired s t \<Longrightarrow> same_desired (fd_rem fd s) (fd_rem fd t)"
  by (simp add: same_desired_def fd_rem_def)

text \<open>
  Claim C6. \<open>__fd_cond_s\<close> on a bit that is not set returns true and leaves the bit set;
  on a bit that is set it returns false and leaves the whole state as it was.
  \<open>__fd_cond_c\<close> on a bit that is set returns true and leaves the bit clear; on a bit
  that is clear it returns false and leaves the whole state as it was.
\<close>

theorem cond_accessors:
  fixes s :: poller_state
  shows "(\<not> fd_isset fd dir s \<longrightarrow>
            fst (fd_cond_s fd dir s) \<and> fd_isset fd dir (snd (fd_cond_s fd dir s))) \<and>
         (fd_isset fd dir s \<longrightarrow>
            \<not> fst (fd_cond_s fd dir s) \<and> snd (fd_cond_s fd dir s) = s) \<and>
         (fd_isset fd dir s \<longrightarrow>
            fst (fd_cond_c fd dir s) \<and> \<not> fd_isset fd dir (snd (fd_cond_c fd dir s))) \<and>
         (\<not> fd_isset fd dir s \<longrightarrow>
            \<not> fst (fd_cond_c fd dir s) \<and> snd (fd_cond_c fd dir s) = s)"
  by (simp add: fd_cond_s_eq fd_cond_c_eq fd_isset_fd_set fd_isset_fd_clr)

theorem cond_accessors_witness:
  "fst (fd_cond_s 5 DIR_RD (idle_state 64)) \<and>
   fd_isset 5 DIR_RD (snd (fd_cond_s 5 DIR_RD (idle_state 64))) \<and>
   \<not> fst (fd_cond_c 5 DIR_RD (idle_state 64)) \<and>
   snd (fd_cond_c 5 DIR_RD (idle_state 64)) = idle_state 64 \<and>
   \<not> fst (fd_cond_s 5 DIR_RD (fd_set 5 DIR_RD (idle_state 64))) \<and>
   snd (fd_cond_s 5 DIR_RD (fd_set 5 DIR_RD (idle_state 64))) = fd_set 5 DIR_RD (idle_state 64) \<and>
   fst (fd_cond_c 5 DIR_RD (fd_set 5 DIR_RD (idle_state 64))) \<and>
   \<not> fd_isset 5 DIR_RD (snd (fd_cond_c 5 DIR_RD (fd_set 5 DIR_RD (idle_state 64))))"
proof -
  have clear: "\<not> fd_isset 5 DIR_RD (idle_state 64)"
    by (simp add: fd_isset_def idle_state_def FD_ISSET_def)
  have set: "fd_isset 5 DIR_RD (fd_set 5 DIR_RD (idle_state 64))"
    by (simp add: fd_isset_def fd_set_def idle_state_def FD_ISSET_def FD_SET_def INTBITS_def)
  show ?thesis
    using cond_accessors [of 5 DIR_RD "idle_state 64"]
      cond_accessors [of 5 DIR_RD "fd_set 5 DIR_RD (idle_state 64)"] clear set
    by blast
qed

text \<open>
  Claim C8. Each of \<open>__fd_isset\<close>, \<open>__fd_set\<close>, \<open>__fd_clr\<close>, \<open>__fd_cond_s\<close>,
  \<open>__fd_cond_c\<close> and \<open>__fd_rem\<close> leaves the previous bit arrays, \<open>maxfd\<close>, the
  descriptor table and the logs of kernel calls and callbacks as they were; of the
  desired bits, only the one addressed can change (for \<open>__fd_rem\<close>, only the two bits
  of the descriptor); and what it returns and what it leaves in the desired arrays
  depends on the desired arrays alone (\<open>__fd_isset\<close> is a pure read: it returns a value
  and has no state to leave).
\<close>

theorem accessors_frame:
  fixes s t :: poller_state
  shows "only_desired_differs s (fd_set fd dir s) \<and>
         only_desired_differs s (fd_clr fd dir s) \<and>
         only_desired_differs s (snd (fd_cond_s fd dir s)) \<and>
         only_desired_differs s (snd (fd_cond_c fd dir s)) \<and>
         only_desired_differs s (fd_rem fd s) \<and>
         (\<forall>fd' dir'. (fd', dir') \<noteq> (fd, dir) \<longrightarrow>
            fd_isset fd' dir' (fd_set fd dir s) = fd_isset fd' dir' s \<and>
            fd_isset fd' dir' (fd_clr fd dir s) = fd_isset fd' dir' s \<and>
            fd_isset fd' dir' (snd (fd_cond_s fd dir s)) = fd_isset fd' dir' s \<and>
            fd_isset fd' dir' (snd (fd_cond_c fd dir s)) = fd_isset fd' dir' s) \<and>
         (\<forall>fd' dir'. fd' \<noteq> fd \<longrightarrow> fd_isset fd' dir' (fd_rem fd s) = fd_isset fd' dir' s) \<and>
         (same_desired s t \<longrightarrow>
            fd_isset fd dir s = fd_isset fd dir t \<and>
            fst (fd_cond_s fd dir s) = fst (fd_cond_s fd dir t) \<and>
            fst (fd_cond_c fd dir s) = fst (fd_cond_c fd dir t) \<and>
            same_desired (fd_set fd dir s) (fd_set fd dir t) \<and>
            same_desired (fd_clr fd dir s) (fd_clr fd dir t) \<and>
            same_desired (snd (fd_cond_s fd dir s)) (snd (fd_cond_s fd dir t)) \<and>
            same_desired (snd (fd_cond_c fd dir s)) (snd (fd_cond_c fd dir t)) \<and>
            same_desired (fd_rem fd s) (fd_rem fd t))"
proof -
  have frame: "only_desired_differs s (fd_set fd dir s) \<and>
         only_desired_differs s (fd_clr fd dir s) \<and>
         only_desired_differs s (snd (fd_cond_s fd dir s)) \<and>
         only_desired_differs s (snd (fd_cond_c fd dir s)) \<and>
         only_desired_differs s (fd_rem fd s)"
    by (simp add: fd_cond_s_eq fd_cond_c_eq only_desired_differs_refl
        only_desired_differs_fd_set only_desired_differs_fd_clr only_desired_differs_fd_rem)
  have others: "\<forall>fd' dir'. (fd', dir') \<noteq> (fd, dir) \<longrightarrow>
            fd_isset fd' dir' (fd_set fd dir s) = fd_isset fd' dir' s \<and>
            fd_isset fd' dir' (fd_clr fd dir s) = fd_isset fd' dir' s \<and>
            fd_isset fd' dir' (snd (fd_cond_s fd dir s)) = fd_isset fd' dir' s \<and>
            fd_isset fd' dir' (snd (fd_cond_c fd dir s)) = fd_isset fd' dir' s"
    by (auto simp: fd_cond_s_eq fd_cond_c_eq fd_isset_fd_set fd_isset_fd_clr)
  have rem: "\<forall>fd' dir'. fd' \<noteq> fd \<longrightarrow> fd_isset fd' dir' (fd_rem fd s) = fd_isset fd' dir' s"
    by (simp add: fd_isset_fd_rem)
  have reads: "same_desired s t \<longrightarrow>
            fd_isset fd dir s = fd_isset fd dir t \<and>
            fst (fd_cond_s fd dir s) = fst (fd_cond_s fd dir t) \<and>
            fst (fd_cond_c fd dir s) = fst (fd_cond_c fd dir t) \<and>
            same_desired (fd_set fd dir s) (fd_set fd dir t) \<and>
            same_desired (fd_clr fd dir s) (fd_clr fd dir t) \<and>
            same_desired (snd (fd_cond_s fd dir s)) (snd (fd_cond_s fd dir t)) \<and>
            same_desired (snd (fd_cond_c fd dir s)) (snd (fd_cond_c fd dir t)) \<and>
            same_desired (fd_rem fd s) (fd_rem fd t)"
    by (simp add: fd_cond_s_eq fd_cond_c_eq same_desired_fd_isset [of s t]
        same_desired_fd_set same_desired_fd_clr same_desired_fd_rem)
  from frame others rem reads show ?thesis
    by blast
qed

theorem accessors_frame_witness:
  "only_desired_differs (idle_state 64) (fd_set 5 DIR_RD (idle_state 64)) \<and>
   only_desired_differs (idle_state 64) (fd_rem 5 (idle_state 64)) \<and>
   fd_isset 6 DIR_RD (fd_set 5 DIR_RD (idle_state 64)) = fd_isset 6 DIR_RD (idle_state 64) \<and>
   fd_isset 5 DIR_WR (fd_set 5 DIR_RD (idle_state 64)) = fd_isset 5 DIR_WR (idle_state 64) \<and>
   fd_isset 6 DIR_WR (fd_rem 5 (idle_state 64)) = fd_isset 6 DIR_WR (idle_state 64) \<and>
   fst (fd_cond_s 5 DIR_RD (idle_state 64)) = fst (fd_cond_s 5 DIR_RD (idle_state 32)) \<and>
   same_desired (fd_set 5 DIR_RD (idle_state 64)) (fd_set 5 DIR_RD (idle_state 32))"
proof -
  have same: "same_desired (idle_state 64) (idle_state 32)"
    by (simp add: same_desired_def idle_state_def)
  have other_fd: "(6::nat, DIR_RD) \<noteq> (5, DIR_RD)"
    by simp
  have other_dir: "(5::nat, DIR_WR) \<noteq> (5, DIR_RD)"
    by simp
  have other: "(6::nat) \<noteq> 5"
    by simp
  show ?thesis
    using accessors_frame [where s = "idle_state 64" and t = "idle_state 32" and fd = 5
        and dir = DIR_RD] same other_fd other_dir other
    by blast
qed

subsection \<open>Initialisation\<close>

text \<open>
  Claim C5. If any of the six acquisitions of \<open>epoll_init\<close> fails, the resources
  acquired are exactly those before the first failing step, they are given back in the
  reverse of the order in which they were acquired and nothing else is given back, the
  preference is set to 0 and 0 is returned. If none fails, a non-zero value is returned,
  all six resources (the kernel object and the five arrays) are held, nothing is given
  back and the preference is left alone.
\<close>

theorem epoll_init_teardown:
  "((\<exists>r. \<not> ok r) \<longrightarrow>
      init_ret (epoll_init ok p) = 0 \<and> poller_pref (epoll_init ok p) = 0 \<and>
      sys_log (epoll_init ok p) =
        map Acquire (takeWhile ok acquisition_order) @
        map Release (rev (takeWhile ok acquisition_order))) \<and>
   ((\<forall>r. ok r) \<longrightarrow>
      init_ret (epoll_init ok p) \<noteq> 0 \<and> poller_pref (epoll_init ok p) = p \<and>
      sys_log (epoll_init ok p) = map Acquire acquisition_order)"
proof -
  have all: "(\<forall>r. ok r) \<longleftrightarrow>
      ok Epoll_fd \<and> ok Epoll_events \<and> ok PrevRead \<and> ok PrevWrite \<and> ok StaticRead \<and> ok StaticWrite"
    by (metis resource.exhaust)
  have ex: "(\<exists>r. \<not> ok r) \<longleftrightarrow> \<not> (\<forall>r. ok r)"
    by simp
  show ?thesis
    unfolding ex all
    by (simp add: epoll_init_def fail_fd_def fail_ee_def fail_prevt_def fail_pwevt_def
        fail_srevt_def fail_swevt_def acquisition_order_def)
qed

theorem epoll_init_teardown_witness:
  "init_ret (epoll_init (\<lambda>r. r \<noteq> PrevWrite) 300) = 0 \<and>
   poller_pref (epoll_init (\<lambda>r. r \<noteq> PrevWrite) 300) = 0 \<and>
   sys_log (epoll_init (\<lambda>r. r \<noteq> PrevWrite) 300) =
     [Acquire Epoll_fd, Acquire Epoll_events, Acquire PrevRead,
      Release PrevRead, Release Epoll_events, Release Epoll_fd] \<and>
   init_ret (epoll_init (\<lambda>r. True) 300) \<noteq> 0 \<and>
   poller_pref (epoll_init (\<lambda>r. True) 300) = 300 \<and>
   sys_log (epoll_init (\<lambda>r. True) 300) =
     [Acquire Epoll_fd, Acquire Epoll_events, Acquire PrevRead,
      Acquire PrevWrite, Acquire StaticRead, Acquire StaticWrite]"
proof -
  have fails: "\<exists>r. \<not> (\<lambda>r. r \<noteq> PrevWrite) r"
    by simp
  have succeeds: "\<forall>r::resource. (\<lambda>r. True) r"
    by simp
  show ?thesis
    using epoll_init_teardown [of "\<lambda>r. r \<noteq> PrevWrite" 300] fails
      epoll_init_teardown [of "\<lambda>r. True" 300] succeeds
    by (simp add: acquisition_order_def)
qed

end
